theory Spec2Isabelle
  imports Complex_Main
begin

section \<open>Isolation game-playing agent: data model\<close>

text \<open>
  The module \<^verbatim>\<open>game_agent.py\<close> holds three heuristic score functions and two search
  agents (fixed-depth minimax, iterative-deepening alpha-beta) for the game Isolation.
  The board class \<^verbatim>\<open>isolation.Board\<close> is an external collaborator: the agents use it
  only through its methods, so the model takes these methods as a record of functions
  over an arbitrary type of game states.
\<close>

type_synonym move = "int \<times> int"

text \<open>
  A Python float as the agents use it: a finite number or one of the two infinities
  \<^verbatim>\<open>float("-inf")\<close> and \<^verbatim>\<open>float("inf")\<close>. The finite values that occur (move counts,
  halves of board dimensions, their squares and products) are exact in binary floating
  point, so they are modelled as reals.
\<close>

datatype val = MInf | Fin real | PInf

fun val_le :: "val \<Rightarrow> val \<Rightarrow> bool" where
  "val_le MInf y = True"
| "val_le (Fin a) MInf = False"
| "val_le (Fin a) (Fin b) = (a \<le> b)"
| "val_le (Fin a) PInf = True"
| "val_le PInf PInf = True"
| "val_le PInf y = False"

instantiation val :: linorder
begin

definition less_eq_val :: "val \<Rightarrow> val \<Rightarrow> bool" where
  "less_eq_val x y = val_le x y"

definition less_val :: "val \<Rightarrow> val \<Rightarrow> bool" where
  "less_val x y = (val_le x y \<and> \<not> val_le y x)"

instance
proof
  fix x y z :: val
  show "(x < y) = (x \<le> y \<and> \<not> y \<le> x)"
    by (simp add: less_eq_val_def less_val_def)
  show "x \<le> x"
    by (cases x) (simp_all add: less_eq_val_def)
  show "x \<le> y \<Longrightarrow> y \<le> z \<Longrightarrow> x \<le> z"
    by (cases x; cases y; cases z) (simp_all add: less_eq_val_def)
  show "x \<le> y \<Longrightarrow> y \<le> x \<Longrightarrow> x = y"
    by (cases x; cases y) (simp_all add: less_eq_val_def)
  show "x \<le> y \<or> y \<le> x"
    by (cases x; cases y) (auto simp add: less_eq_val_def)
qed

end

text \<open>The exceptions of the module: its own \<^verbatim>\<open>SearchTimeout\<close>, and the two built-in
  ones its expressions can raise (\<^verbatim>\<open>max\<close> of an empty sequence, unpacking \<^verbatim>\<open>None\<close>).\<close>

datatype error = SearchTimeout | ValueError | TypeError

text \<open>
  The methods of \<^verbatim>\<open>isolation.Board\<close> that the module calls. \<^verbatim>\<open>get_legal_moves\<close> takes
  an optional player; \<open>None\<close> is Python's default argument, the active player.
\<close>

record ('g, 'p) board_api =
  get_legal_moves :: "'g \<Rightarrow> 'p option \<Rightarrow> move list"
  forecast_move :: "'g \<Rightarrow> move \<Rightarrow> 'g"
  is_loser :: "'g \<Rightarrow> 'p \<Rightarrow> bool"
  is_winner :: "'g \<Rightarrow> 'p \<Rightarrow> bool"
  get_opponent :: "'g \<Rightarrow> 'p \<Rightarrow> 'p"
  get_blank_spaces :: "'g \<Rightarrow> move list"
  get_player_location :: "'g \<Rightarrow> 'p \<Rightarrow> move option"
  width :: "'g \<Rightarrow> int"
  height :: "'g \<Rightarrow> int"

text \<open>
  The fields of \<^verbatim>\<open>IsolationPlayer\<close>. \<open>self_player\<close> is the object itself, which the agents
  pass to the score function as the player. \<open>time_left\<close> is the callable of the current
  turn: the model numbers its calls, \<open>time_left P k\<close> is what call number \<open>k\<close> returns, and
  every function that calls it takes the number of calls made so far and returns the
  new count.
\<close>

record ('g, 'p) isolation_player =
  self_player :: 'p
  search_depth :: int
  score :: "'g \<Rightarrow> 'p \<Rightarrow> val"
  time_left :: "nat \<Rightarrow> real"
  TIMER_THRESHOLD :: real

text \<open>
  A call returns a value or raises, and has made some calls of \<open>time_left\<close>. The recursion
  of the searches is bounded by the board only, which the module does not see: the
  recursive functions take a bound on the nesting of calls and return \<open>None\<close> when it
  does not suffice.
\<close>

type_synonym 'a outcome = "((error + 'a) \<times> nat) option"

section \<open>The score functions\<close>

text \<open>\<^verbatim>\<open>custom_score_2\<close>: own moves minus twice the opponent's moves.\<close>

definition custom_score_2 :: "('g, 'p) board_api \<Rightarrow> 'g \<Rightarrow> 'p \<Rightarrow> val" where
  "custom_score_2 B game player =
     (if is_loser B game player then MInf
      else if is_winner B game player then PInf
      else let opponent = get_opponent B game player
           in Fin (real (length (get_legal_moves B game (Some player)))
                   - 2 * real (length (get_legal_moves B game (Some opponent)))))"

text \<open>
  The nested function \<^verbatim>\<open>longestPath\<close> of \<^verbatim>\<open>custom_score\<close>. The parameters \<^verbatim>\<open>path\<close> and
  \<^verbatim>\<open>longest\<close> are local to each call, and the value of the recursive calls is dropped:
  the loop only has to return. \<open>longestPath_loop\<close> is the \<^verbatim>\<open>for\<close> loop.
\<close>

fun longestPath :: "('g, 'p) board_api \<Rightarrow> nat \<Rightarrow> 'p \<Rightarrow> 'g \<Rightarrow> int \<Rightarrow> int \<Rightarrow> int option"
  and longestPath_loop ::
    "('g, 'p) board_api \<Rightarrow> nat \<Rightarrow> 'p \<Rightarrow> 'g \<Rightarrow> move list \<Rightarrow> int \<Rightarrow> int \<Rightarrow> int option"
where
  "longestPath B fuel player game path longest =
     (let moves = get_legal_moves B game (Some player);
          longest = (if path > longest then path else longest);
          path = (if length moves = 0 then 0 else path)
      in longestPath_loop B fuel player game moves path longest)"
| "longestPath_loop B fuel player game [] path longest = Some longest"
| "longestPath_loop B 0 player game (m # ms) path longest = None"
| "longestPath_loop B (Suc fuel) player game (m # ms) path longest =
     (let new_board = forecast_move B game m
      in case longestPath B fuel player new_board (path + 1) longest of
           None \<Rightarrow> None
         | Some _ \<Rightarrow> longestPath_loop B (Suc fuel) player game ms path longest)"

definition custom_score :: "('g, 'p) board_api \<Rightarrow> nat \<Rightarrow> 'g \<Rightarrow> 'p \<Rightarrow> val option" where
  "custom_score B fuel game player =
     (if is_loser B game player then Some MInf
      else if is_winner B game player then Some PInf
      else let game_phase = int (length (get_blank_spaces B game))
           in if game_phase < 15
              then (case longestPath B fuel player game 0 0 of
                      None \<Rightarrow> None
                    | Some a \<Rightarrow>
                       (case longestPath B fuel (get_opponent B game player) game 0 0 of
                          None \<Rightarrow> None
                        | Some b \<Rightarrow> Some (Fin (real_of_int (a - b)))))
              else let opponent = get_opponent B game player
                   in Some (Fin (real (length (get_legal_moves B game (Some player)))
                        - 2 * real (length (get_legal_moves B game (Some opponent))))))"

text \<open>
  \<^verbatim>\<open>custom_score_3\<close>. A location is a pair of integers or \<^verbatim>\<open>None\<close>; \<^verbatim>\<open>center\<close> is a pair
  of floats. Python compares the two componentwise by numeric value, and \<^verbatim>\<open>None\<close> equals
  no pair. Iterating over or unpacking \<^verbatim>\<open>None\<close> raises \<^verbatim>\<open>TypeError\<close>.
\<close>

definition as_floats :: "move \<Rightarrow> real \<times> real" where
  "as_floats c = (real_of_int (fst c), real_of_int (snd c))"

definition loc_eq :: "move option \<Rightarrow> real \<times> real \<Rightarrow> bool" where
  "loc_eq loc c = (case loc of None \<Rightarrow> False | Some p \<Rightarrow> as_floats p = c)"

definition loc_in :: "move option \<Rightarrow> (real \<times> real) list \<Rightarrow> bool" where
  "loc_in loc cs = (case loc of None \<Rightarrow> False | Some p \<Rightarrow> as_floats p \<in> set cs)"

definition directions :: "(real \<times> real) list" where
  "directions = [(-2, -1), (-2, 1), (-1, -2), (-1, 2), (1, -2), (1, 2), (2, -1), (2, 1)]"

definition custom_score_3 :: "('g, 'p) board_api \<Rightarrow> 'g \<Rightarrow> 'p \<Rightarrow> error + val" where
  "custom_score_3 B game player =
     (if is_loser B game player then Inr MInf
      else if is_winner B game player then Inr PInf
      else
        let game_phase = real (length (get_blank_spaces B game));
            center = (real_of_int (width B game) / 2, real_of_int (height B game) / 2);
            opponent = get_opponent B game player;
            loc_player = get_player_location B game player;
            loc_opponent = get_player_location B game opponent;
            trueCentre = (width B game mod 2 \<noteq> 0 \<and> height B game mod 2 \<noteq> 0)
        in if trueCentre \<and> loc_player = None then Inl TypeError
           else
             let loc_mirror = map_option
                   (\<lambda>(a, b). (\<bar>a - (width B game - 1)\<bar>, \<bar>b - (width B game - 1)\<bar>)) loc_player;
                 avoidable_positions =
                   map (\<lambda>(dr, dc). (fst center + dr, snd center + dc)) directions
             in if loc_eq loc_player center then Inr PInf
                else if loc_eq loc_opponent center \<and> loc_in loc_player avoidable_positions
                then Inr MInf
                else if trueCentre
                        \<and> center \<notin> set (map as_floats (get_blank_spaces B game))
                        \<and> loc_opponent = loc_mirror
                        \<and> length (get_legal_moves B game (Some player))
                            = length (get_legal_moves B game (Some opponent))
                then Inr PInf
                else (case loc_player of
                        None \<Rightarrow> Inl TypeError
                      | Some (y, x) \<Rightarrow>
                          let w = fst center; h = snd center;
                              dist = (h - real_of_int y)\<^sup>2 + (w - real_of_int x)\<^sup>2
                          in Inr (Fin ((real (length (get_legal_moves B game (Some player)))
                                - 2 * real (length (get_legal_moves B game (Some opponent)))
                                - dist) * game_phase))))"

section \<open>MinimaxPlayer\<close>

text \<open>
  The nested functions \<^verbatim>\<open>min_value\<close> and \<^verbatim>\<open>max_value\<close> of \<^verbatim>\<open>minimax\<close>, each with its
  \<^verbatim>\<open>for\<close> loop. \<open>depth\<close> is the variable of the enclosing call, \<open>td\<close> is
  \<^verbatim>\<open>traversed_depth\<close> and, in the loops, \<open>v\<close> is the running value.
\<close>

function (sequential) mm_min_value ::
    "('g, 'p) board_api \<Rightarrow> ('g, 'p) isolation_player \<Rightarrow> int \<Rightarrow> nat \<Rightarrow> 'g \<Rightarrow> int \<Rightarrow> nat
      \<Rightarrow> val outcome"
  and mm_min_loop ::
    "('g, 'p) board_api \<Rightarrow> ('g, 'p) isolation_player \<Rightarrow> int \<Rightarrow> nat \<Rightarrow> 'g \<Rightarrow> move list \<Rightarrow> int
      \<Rightarrow> val \<Rightarrow> nat \<Rightarrow> val outcome"
  and mm_max_value ::
    "('g, 'p) board_api \<Rightarrow> ('g, 'p) isolation_player \<Rightarrow> int \<Rightarrow> nat \<Rightarrow> 'g \<Rightarrow> int \<Rightarrow> nat
      \<Rightarrow> val outcome"
  and mm_max_loop ::
    "('g, 'p) board_api \<Rightarrow> ('g, 'p) isolation_player \<Rightarrow> int \<Rightarrow> nat \<Rightarrow> 'g \<Rightarrow> move list \<Rightarrow> int
      \<Rightarrow> val \<Rightarrow> nat \<Rightarrow> val outcome"
where
  "mm_min_value B P depth fuel game td k =
     (if time_left P k < TIMER_THRESHOLD P then Some (Inl SearchTimeout, Suc k)
      else if td = depth then Some (Inr (score P game (self_player P)), Suc k)
      else mm_min_loop B P depth fuel game (get_legal_moves B game None) (td + 1) PInf (Suc k))"
| "mm_min_loop B P depth fuel game [] td v k = Some (Inr v, k)"
| "mm_min_loop B P depth fuel game (m # ms) td v k =
     (if time_left P k < TIMER_THRESHOLD P then Some (Inl SearchTimeout, Suc k)
      else case fuel of
             0 \<Rightarrow> None
           | Suc fuel' \<Rightarrow>
              (case mm_max_value B P depth fuel' (forecast_move B game m) td (Suc k) of
                 None \<Rightarrow> None
               | Some (Inl e, k') \<Rightarrow> Some (Inl e, k')
               | Some (Inr x, k') \<Rightarrow> mm_min_loop B P depth fuel game ms td (min v x) k'))"
| "mm_max_value B P depth fuel game td k =
     (if time_left P k < TIMER_THRESHOLD P then Some (Inl SearchTimeout, Suc k)
      else if td = depth then Some (Inr (score P game (self_player P)), Suc k)
      else mm_max_loop B P depth fuel game (get_legal_moves B game None) (td + 1) MInf (Suc k))"
| "mm_max_loop B P depth fuel game [] td v k = Some (Inr v, k)"
| "mm_max_loop B P depth fuel game (m # ms) td v k =
     (if time_left P k < TIMER_THRESHOLD P then Some (Inl SearchTimeout, Suc k)
      else case fuel of
             0 \<Rightarrow> None
           | Suc fuel' \<Rightarrow>
              (case mm_min_value B P depth fuel' (forecast_move B game m) td (Suc k) of
                 None \<Rightarrow> None
               | Some (Inl e, k') \<Rightarrow> Some (Inl e, k')
               | Some (Inr x, k') \<Rightarrow> mm_max_loop B P depth fuel game ms td (max v x) k'))"
  by pat_completeness auto

termination
  by (relation "measures
        [\<lambda>x. case x of
            Inl (Inl (B, P, d, fuel, g, td, k)) \<Rightarrow> fuel
          | Inl (Inr (B, P, d, fuel, g, ms, td, v, k)) \<Rightarrow> fuel
          | Inr (Inl (B, P, d, fuel, g, td, k)) \<Rightarrow> fuel
          | Inr (Inr (B, P, d, fuel, g, ms, td, v, k)) \<Rightarrow> fuel,
         \<lambda>x. case x of
            Inl (Inl (B, P, d, fuel, g, td, k)) \<Rightarrow> Suc 0
          | Inl (Inr (B, P, d, fuel, g, ms, td, v, k)) \<Rightarrow> 0
          | Inr (Inl (B, P, d, fuel, g, td, k)) \<Rightarrow> Suc 0
          | Inr (Inr (B, P, d, fuel, g, ms, td, v, k)) \<Rightarrow> 0,
         \<lambda>x. case x of
            Inl (Inl (B, P, d, fuel, g, td, k)) \<Rightarrow> 0
          | Inl (Inr (B, P, d, fuel, g, ms, td, v, k)) \<Rightarrow> length ms
          | Inr (Inl (B, P, d, fuel, g, td, k)) \<Rightarrow> 0
          | Inr (Inr (B, P, d, fuel, g, ms, td, v, k)) \<Rightarrow> length ms]")
     auto

text \<open>
  The last line of \<^verbatim>\<open>minimax\<close>: Python's \<^verbatim>\<open>max\<close> with a key raises \<^verbatim>\<open>ValueError\<close> on an
  empty sequence, computes the key of every element in order, and keeps the first element
  of greatest key (a later element replaces the kept one only when its key is strictly
  greater). \<open>mm_max_key\<close> is the scan of the elements after the first, with the kept
  element and its key.
\<close>

fun mm_max_key ::
    "('g, 'p) board_api \<Rightarrow> ('g, 'p) isolation_player \<Rightarrow> int \<Rightarrow> nat \<Rightarrow> 'g \<Rightarrow> move list
      \<Rightarrow> move \<Rightarrow> val \<Rightarrow> nat \<Rightarrow> move outcome" where
  "mm_max_key B P depth fuel game [] maxitem maxval k = Some (Inr maxitem, k)"
| "mm_max_key B P depth fuel game (m # ms) maxitem maxval k =
     (case mm_min_value B P depth fuel (forecast_move B game m) 1 k of
        None \<Rightarrow> None
      | Some (Inl e, k') \<Rightarrow> Some (Inl e, k')
      | Some (Inr x, k') \<Rightarrow>
          (if x > maxval then mm_max_key B P depth fuel game ms m x k'
           else mm_max_key B P depth fuel game ms maxitem maxval k'))"

definition minimax ::
    "('g, 'p) board_api \<Rightarrow> ('g, 'p) isolation_player \<Rightarrow> nat \<Rightarrow> 'g \<Rightarrow> int \<Rightarrow> nat
      \<Rightarrow> move outcome" where
  "minimax B P fuel game depth k =
     (case get_legal_moves B game None of
        [] \<Rightarrow> Some (Inl ValueError, k)
      | m # ms \<Rightarrow>
          (case mm_min_value B P depth fuel (forecast_move B game m) 1 k of
             None \<Rightarrow> None
           | Some (Inl e, k') \<Rightarrow> Some (Inl e, k')
           | Some (Inr x, k') \<Rightarrow> mm_max_key B P depth fuel game ms m x k'))"

text \<open>
  \<^verbatim>\<open>MinimaxPlayer.get_move\<close>. The \<^verbatim>\<open>except\<close> clause catches \<^verbatim>\<open>SearchTimeout\<close> only.
\<close>

definition mm_get_move ::
    "('g, 'p) board_api \<Rightarrow> ('g, 'p) isolation_player \<Rightarrow> nat \<Rightarrow> 'g \<Rightarrow> (nat \<Rightarrow> real) \<Rightarrow> nat
      \<Rightarrow> move outcome" where
  "mm_get_move B P0 fuel game tleft k =
     (let P = P0\<lparr>time_left := tleft\<rparr>
      in case get_legal_moves B game None of
           [] \<Rightarrow> Some (Inr (-1, -1), k)
         | best_move # _ \<Rightarrow>
             (case minimax B P fuel game (search_depth P) k of
                None \<Rightarrow> None
              | Some (Inr mv, k') \<Rightarrow> Some (Inr mv, k')
              | Some (Inl e, k') \<Rightarrow>
                  (if e = SearchTimeout then Some (Inr best_move, k')
                   else Some (Inl e, k'))))"

section \<open>AlphaBetaPlayer\<close>

text \<open>
  The nested functions \<^verbatim>\<open>min_value\<close> and \<^verbatim>\<open>max_value\<close> of \<^verbatim>\<open>alphabeta\<close> with their loops.
  In the loops \<open>alpha\<close> and \<open>beta\<close> are the local variables as updated so far and \<open>v\<close> is
  the running value.
\<close>

function (sequential) ab_min_value ::
    "('g, 'p) board_api \<Rightarrow> ('g, 'p) isolation_player \<Rightarrow> nat \<Rightarrow> 'g \<Rightarrow> int \<Rightarrow> val \<Rightarrow> val \<Rightarrow> nat
      \<Rightarrow> val outcome"
  and ab_min_loop ::
    "('g, 'p) board_api \<Rightarrow> ('g, 'p) isolation_player \<Rightarrow> nat \<Rightarrow> 'g \<Rightarrow> move list \<Rightarrow> int
      \<Rightarrow> val \<Rightarrow> val \<Rightarrow> val \<Rightarrow> nat \<Rightarrow> val outcome"
  and ab_max_value ::
    "('g, 'p) board_api \<Rightarrow> ('g, 'p) isolation_player \<Rightarrow> nat \<Rightarrow> 'g \<Rightarrow> int \<Rightarrow> val \<Rightarrow> val \<Rightarrow> nat
      \<Rightarrow> val outcome"
  and ab_max_loop ::
    "('g, 'p) board_api \<Rightarrow> ('g, 'p) isolation_player \<Rightarrow> nat \<Rightarrow> 'g \<Rightarrow> move list \<Rightarrow> int
      \<Rightarrow> val \<Rightarrow> val \<Rightarrow> val \<Rightarrow> nat \<Rightarrow> val outcome"
where
  "ab_min_value B P fuel game depth alpha beta k =
     (if time_left P k < TIMER_THRESHOLD P then Some (Inl SearchTimeout, Suc k)
      else if depth = 0 \<or> get_legal_moves B game None = []
      then Some (Inr (score P game (self_player P)), Suc k)
      else ab_min_loop B P fuel game (get_legal_moves B game None) depth alpha beta PInf (Suc k))"
| "ab_min_loop B P fuel game [] depth alpha beta v k = Some (Inr v, k)"
| "ab_min_loop B P fuel game (m # ms) depth alpha beta v k =
     (case fuel of
        0 \<Rightarrow> None
      | Suc fuel' \<Rightarrow>
         (case ab_max_value B P fuel' (forecast_move B game m) (depth - 1) alpha beta k of
            None \<Rightarrow> None
          | Some (Inl e, k') \<Rightarrow> Some (Inl e, k')
          | Some (Inr x, k') \<Rightarrow>
              (let v = min v x
               in if v \<le> alpha then Some (Inr v, k')
                  else ab_min_loop B P fuel game ms depth alpha (min beta v) v k')))"
| "ab_max_value B P fuel game depth alpha beta k =
     (if time_left P k < TIMER_THRESHOLD P then Some (Inl SearchTimeout, Suc k)
      else if depth = 0 \<or> get_legal_moves B game None = []
      then Some (Inr (score P game (self_player P)), Suc k)
      else ab_max_loop B P fuel game (get_legal_moves B game None) depth alpha beta MInf (Suc k))"
| "ab_max_loop B P fuel game [] depth alpha beta v k = Some (Inr v, k)"
| "ab_max_loop B P fuel game (m # ms) depth alpha beta v k =
     (case fuel of
        0 \<Rightarrow> None
      | Suc fuel' \<Rightarrow>
         (case ab_min_value B P fuel' (forecast_move B game m) (depth - 1) alpha beta k of
            None \<Rightarrow> None
          | Some (Inl e, k') \<Rightarrow> Some (Inl e, k')
          | Some (Inr x, k') \<Rightarrow>
              (let v = max v x
               in if v \<ge> beta then Some (Inr v, k')
                  else ab_max_loop B P fuel game ms depth (max alpha v) beta v k')))"
  by pat_completeness auto

termination
  by (relation "measures
        [\<lambda>x. case x of
            Inl (Inl (B, P, fuel, g, d, a, b, k)) \<Rightarrow> fuel
          | Inl (Inr (B, P, fuel, g, ms, d, a, b, v, k)) \<Rightarrow> fuel
          | Inr (Inl (B, P, fuel, g, d, a, b, k)) \<Rightarrow> fuel
          | Inr (Inr (B, P, fuel, g, ms, d, a, b, v, k)) \<Rightarrow> fuel,
         \<lambda>x. case x of
            Inl (Inl (B, P, fuel, g, d, a, b, k)) \<Rightarrow> Suc 0
          | Inl (Inr (B, P, fuel, g, ms, d, a, b, v, k)) \<Rightarrow> 0
          | Inr (Inl (B, P, fuel, g, d, a, b, k)) \<Rightarrow> Suc 0
          | Inr (Inr (B, P, fuel, g, ms, d, a, b, v, k)) \<Rightarrow> 0,
         \<lambda>x. case x of
            Inl (Inl (B, P, fuel, g, d, a, b, k)) \<Rightarrow> 0
          | Inl (Inr (B, P, fuel, g, ms, d, a, b, v, k)) \<Rightarrow> length ms
          | Inr (Inl (B, P, fuel, g, d, a, b, k)) \<Rightarrow> 0
          | Inr (Inr (B, P, fuel, g, ms, d, a, b, v, k)) \<Rightarrow> length ms]")
     auto

text \<open>
  The body of \<^verbatim>\<open>alphabeta\<close>: the loop over the legal moves of the root, with the local
  variables \<^verbatim>\<open>alpha\<close>, \<^verbatim>\<open>best_val\<close> and \<^verbatim>\<open>best_move\<close>.
\<close>

fun alphabeta_loop ::
    "('g, 'p) board_api \<Rightarrow> ('g, 'p) isolation_player \<Rightarrow> nat \<Rightarrow> 'g \<Rightarrow> move list \<Rightarrow> int
      \<Rightarrow> val \<Rightarrow> val \<Rightarrow> val \<Rightarrow> move \<Rightarrow> nat \<Rightarrow> move outcome" where
  "alphabeta_loop B P fuel game [] depth alpha beta best_val best_move k =
     Some (Inr best_move, k)"
| "alphabeta_loop B P fuel game (m # ms) depth alpha beta best_val best_move k =
     (case ab_min_value B P fuel (forecast_move B game m) (depth - 1) alpha beta k of
        None \<Rightarrow> None
      | Some (Inl e, k') \<Rightarrow> Some (Inl e, k')
      | Some (Inr v, k') \<Rightarrow>
          (let best_val' = (if v > best_val then v else best_val);
               best_move' = (if v > best_val then m else best_move)
           in alphabeta_loop B P fuel game ms depth (max alpha best_val') beta
                best_val' best_move' k'))"

definition alphabeta ::
    "('g, 'p) board_api \<Rightarrow> ('g, 'p) isolation_player \<Rightarrow> nat \<Rightarrow> 'g \<Rightarrow> int \<Rightarrow> val \<Rightarrow> val \<Rightarrow> nat
      \<Rightarrow> move outcome" where
  "alphabeta B P fuel game depth alpha beta k =
     alphabeta_loop B P fuel game (get_legal_moves B game None) depth alpha beta
       MInf (-1, -1) k"

text \<open>
  The \<^verbatim>\<open>while\<close> loop of \<^verbatim>\<open>AlphaBetaPlayer.get_move\<close> inside its \<^verbatim>\<open>try\<close>. It runs for as
  long as the clock allows, so it is a partial function: \<open>None\<close> when it does not return.
  On \<^verbatim>\<open>SearchTimeout\<close> the handler returns \<^verbatim>\<open>last_move\<close>, the value \<^verbatim>\<open>best_move\<close> had
  when the iteration began.
\<close>

partial_function (option) ab_deepen ::
    "('g, 'p) board_api \<Rightarrow> ('g, 'p) isolation_player \<Rightarrow> nat \<Rightarrow> 'g \<Rightarrow> move \<Rightarrow> int \<Rightarrow> nat
      \<Rightarrow> ((error + move) \<times> nat) option" where
  "ab_deepen B P fuel game best_move depth k =
     (if time_left P k > TIMER_THRESHOLD P
      then (case alphabeta B P fuel game depth MInf PInf (Suc k) of
              None \<Rightarrow> None
            | Some (Inr mv, k') \<Rightarrow> ab_deepen B P fuel game mv (depth + 1) k'
            | Some (Inl e, k') \<Rightarrow>
                (if e = SearchTimeout then Some (Inr best_move, k')
                 else Some (Inl e, k')))
      else Some (Inr best_move, Suc k))"

definition ab_get_move ::
    "('g, 'p) board_api \<Rightarrow> ('g, 'p) isolation_player \<Rightarrow> nat \<Rightarrow> 'g \<Rightarrow> (nat \<Rightarrow> real) \<Rightarrow> nat
      \<Rightarrow> move outcome" where
  "ab_get_move B P0 fuel game tleft k =
     (let P = P0\<lparr>time_left := tleft\<rparr>
      in case get_legal_moves B game None of
           [] \<Rightarrow> Some (Inr (-1, -1), k)
         | best_move # _ \<Rightarrow> ab_deepen B P fuel game best_move 1 k)"

section \<open>Reference values for the comparison of the two searches\<close>

text \<open>
  The backed-up minimax value of a node that lies \<open>n\<close> plies above the cutoff, as
  \<^verbatim>\<open>MinimaxPlayer.minimax\<close> computes it when no timeout fires: the score at the cutoff,
  and above it the minimum (at a ply of the opponent) or the maximum (at a ply of the
  agent) over the legal moves, starting from the infinity that the loop starts from.
\<close>

fun bv_min :: "('g, 'p) board_api \<Rightarrow> ('g, 'p) isolation_player \<Rightarrow> nat \<Rightarrow> 'g \<Rightarrow> val"
  and bv_max :: "('g, 'p) board_api \<Rightarrow> ('g, 'p) isolation_player \<Rightarrow> nat \<Rightarrow> 'g \<Rightarrow> val"
where
  "bv_min B P 0 game = score P game (self_player P)"
| "bv_min B P (Suc n) game =
     fold (\<lambda>m v. min v (bv_max B P n (forecast_move B game m))) (get_legal_moves B game None) PInf"
| "bv_max B P 0 game = score P game (self_player P)"
| "bv_max B P (Suc n) game =
     fold (\<lambda>m v. max v (bv_min B P n (forecast_move B game m))) (get_legal_moves B game None) MInf"

text \<open>
  The value the recursion of \<^verbatim>\<open>alphabeta\<close> computes for a node with remaining depth
  \<open>n\<close> when no timeout fires: the functions \<open>ab_min_value\<close> and \<open>ab_max_value\<close> without
  the clock.
\<close>

function (sequential) abv_min :: "('g, 'p) board_api \<Rightarrow> ('g, 'p) isolation_player \<Rightarrow> nat \<Rightarrow> 'g \<Rightarrow> val \<Rightarrow> val \<Rightarrow> val"
  and abv_min_loop ::
    "('g, 'p) board_api \<Rightarrow> ('g, 'p) isolation_player \<Rightarrow> nat \<Rightarrow> 'g \<Rightarrow> move list \<Rightarrow> val \<Rightarrow> val
      \<Rightarrow> val \<Rightarrow> val"
  and abv_max :: "('g, 'p) board_api \<Rightarrow> ('g, 'p) isolation_player \<Rightarrow> nat \<Rightarrow> 'g \<Rightarrow> val \<Rightarrow> val \<Rightarrow> val"
  and abv_max_loop ::
    "('g, 'p) board_api \<Rightarrow> ('g, 'p) isolation_player \<Rightarrow> nat \<Rightarrow> 'g \<Rightarrow> move list \<Rightarrow> val \<Rightarrow> val
      \<Rightarrow> val \<Rightarrow> val"
where
  "abv_min B P 0 game alpha beta = score P game (self_player P)"
| "abv_min B P (Suc n) game alpha beta =
     (if get_legal_moves B game None = [] then score P game (self_player P)
      else abv_min_loop B P n game (get_legal_moves B game None) alpha beta PInf)"
| "abv_min_loop B P n game [] alpha beta v = v"
| "abv_min_loop B P n game (m # ms) alpha beta v =
     (let v = min v (abv_max B P n (forecast_move B game m) alpha beta)
      in if v \<le> alpha then v else abv_min_loop B P n game ms alpha (min beta v) v)"
| "abv_max B P 0 game alpha beta = score P game (self_player P)"
| "abv_max B P (Suc n) game alpha beta =
     (if get_legal_moves B game None = [] then score P game (self_player P)
      else abv_max_loop B P n game (get_legal_moves B game None) alpha beta MInf)"
| "abv_max_loop B P n game [] alpha beta v = v"
| "abv_max_loop B P n game (m # ms) alpha beta v =
     (let v = max v (abv_min B P n (forecast_move B game m) alpha beta)
      in if v \<ge> beta then v else abv_max_loop B P n game ms (max alpha v) beta v)"
  by pat_completeness auto

termination
  by (relation "measures
        [\<lambda>x. case x of
            Inl (Inl (B, P, n, g, a, b)) \<Rightarrow> n
          | Inl (Inr (B, P, n, g, ms, a, b, v)) \<Rightarrow> Suc n
          | Inr (Inl (B, P, n, g, a, b)) \<Rightarrow> n
          | Inr (Inr (B, P, n, g, ms, a, b, v)) \<Rightarrow> Suc n,
         \<lambda>x. case x of
            Inl (Inl (B, P, n, g, a, b)) \<Rightarrow> Suc 0
          | Inl (Inr (B, P, n, g, ms, a, b, v)) \<Rightarrow> 0
          | Inr (Inl (B, P, n, g, a, b)) \<Rightarrow> Suc 0
          | Inr (Inr (B, P, n, g, ms, a, b, v)) \<Rightarrow> 0,
         \<lambda>x. case x of
            Inl (Inl (B, P, n, g, a, b)) \<Rightarrow> 0
          | Inl (Inr (B, P, n, g, ms, a, b, v)) \<Rightarrow> length ms
          | Inr (Inl (B, P, n, g, a, b)) \<Rightarrow> 0
          | Inr (Inr (B, P, n, g, ms, a, b, v)) \<Rightarrow> length ms]")
     auto

text \<open>The loop of \<^verbatim>\<open>alphabeta\<close> over the moves of the root, without the clock.\<close>

fun abv_root ::
    "('g, 'p) board_api \<Rightarrow> ('g, 'p) isolation_player \<Rightarrow> nat \<Rightarrow> 'g \<Rightarrow> move list \<Rightarrow> val \<Rightarrow> val
      \<Rightarrow> val \<Rightarrow> move \<Rightarrow> move" where
  "abv_root B P n game [] alpha beta best_val best_move = best_move"
| "abv_root B P n game (m # ms) alpha beta best_val best_move =
     (let v = abv_min B P n (forecast_move B game m) alpha beta;
          best_val' = (if v > best_val then v else best_val);
          best_move' = (if v > best_val then m else best_move)
      in abv_root B P n game ms (max alpha best_val') beta best_val' best_move')"

text \<open>
  The first element of greatest value in a scan from left to right that starts with a
  kept element and its value: what Python's \<^verbatim>\<open>max\<close> with a key does after its first
  element.
\<close>

fun first_max :: "(move \<Rightarrow> val) \<Rightarrow> move list \<Rightarrow> move \<Rightarrow> val \<Rightarrow> move" where
  "first_max f [] best bv = best"
| "first_max f (m # ms) best bv =
     (if f m > bv then first_max f ms m (f m) else first_max f ms best bv)"

text \<open>
  The two searches treat a node without legal moves above the cutoff differently.
  \<open>dead_ends_min B P n game\<close> says that in the tree of \<open>n\<close> plies below \<open>game\<close>, whose
  root is a ply of the opponent, every node without legal moves above the cutoff has
  the score that the empty loop of the minimax search yields there: \<open>PInf\<close> at a ply of
  the opponent, \<open>MInf\<close> at a ply of the agent.
\<close>

fun dead_ends_min :: "('g, 'p) board_api \<Rightarrow> ('g, 'p) isolation_player \<Rightarrow> nat \<Rightarrow> 'g \<Rightarrow> bool"
  and dead_ends_max :: "('g, 'p) board_api \<Rightarrow> ('g, 'p) isolation_player \<Rightarrow> nat \<Rightarrow> 'g \<Rightarrow> bool"
where
  "dead_ends_min B P 0 game = True"
| "dead_ends_min B P (Suc n) game =
     (if get_legal_moves B game None = [] then score P game (self_player P) = PInf
      else list_all (\<lambda>m. dead_ends_max B P n (forecast_move B game m))
             (get_legal_moves B game None))"
| "dead_ends_max B P 0 game = True"
| "dead_ends_max B P (Suc n) game =
     (if get_legal_moves B game None = [] then score P game (self_player P) = MInf
      else list_all (\<lambda>m. dead_ends_min B P n (forecast_move B game m))
             (get_legal_moves B game None))"

text \<open>
  The specification of fail-soft pruning: \<open>r\<close>, computed with the window from \<open>a\<close> to
  \<open>b\<close>, is the value \<open>v\<close> when it lies inside the window and bounds it otherwise.
\<close>

definition window_sound :: "val \<Rightarrow> val \<Rightarrow> val \<Rightarrow> val \<Rightarrow> bool" where
  "window_sound a b v r \<longleftrightarrow>
     (if r \<le> a then v \<le> r else if b \<le> r then r \<le> v else r = v)"

abbreviation min_fold ::
    "('g, 'p) board_api \<Rightarrow> ('g, 'p) isolation_player \<Rightarrow> nat \<Rightarrow> 'g \<Rightarrow> move list \<Rightarrow> val \<Rightarrow> val" where
  "min_fold B P n game ms u \<equiv>
     fold (\<lambda>m v. min v (bv_max B P n (forecast_move B game m))) ms u"

abbreviation max_fold ::
    "('g, 'p) board_api \<Rightarrow> ('g, 'p) isolation_player \<Rightarrow> nat \<Rightarrow> 'g \<Rightarrow> move list \<Rightarrow> val \<Rightarrow> val" where
  "max_fold B P n game ms u \<equiv>
     fold (\<lambda>m v. max v (bv_min B P n (forecast_move B game m))) ms u"

section \<open>Notions used in the statements\<close>


text \<open>
  The run of the \<^verbatim>\<open>while\<close> loop of \<^verbatim>\<open>AlphaBetaPlayer.get_move\<close> through its first \<open>n\<close>
  iterations, the searches at depths \<open>1\<close> to \<open>n\<close>: \<open>Some\<close> of the value of \<^verbatim>\<open>best_move\<close> and
  of the count of \<open>time_left\<close> calls after them when each of them began and ran to its
  end, \<open>None\<close> otherwise.
\<close>

fun ab_iterations ::
    "('g, 'p) board_api \<Rightarrow> ('g, 'p) isolation_player \<Rightarrow> nat \<Rightarrow> 'g \<Rightarrow> move \<Rightarrow> nat \<Rightarrow> nat
      \<Rightarrow> (move \<times> nat) option" where
  "ab_iterations B P fuel game best_move 0 k = Some (best_move, k)"
| "ab_iterations B P fuel game best_move (Suc n) k =
     (case ab_iterations B P fuel game best_move n k of
        None \<Rightarrow> None
      | Some (last_move, k1) \<Rightarrow>
          (if time_left P k1 > TIMER_THRESHOLD P
           then (case alphabeta B P fuel game (int n + 1) MInf PInf (Suc k1) of
                   Some (Inr mv, k2) \<Rightarrow> Some (mv, k2)
                 | _ \<Rightarrow> None)
           else None))"

text \<open>The states that lie exactly \<open>n\<close> legal moves below a state, along every branch.\<close>

fun plies :: "('g, 'p) board_api \<Rightarrow> nat \<Rightarrow> 'g \<Rightarrow> 'g list" where
  "plies B 0 game = [game]"
| "plies B (Suc n) game =
     concat (map (\<lambda>m. plies B n (forecast_move B game m)) (get_legal_moves B game None))"

text \<open>
  Two score functions agree, for the agent, on the nodes at the cutoff depth below a
  node at traversed depth \<open>td\<close>. Beyond the cutoff depth there is no such node.
\<close>

abbreviation same_at_cutoff ::
    "('g, 'p) board_api \<Rightarrow> ('g, 'p) isolation_player \<Rightarrow> ('g \<Rightarrow> 'p \<Rightarrow> val) \<Rightarrow> ('g \<Rightarrow> 'p \<Rightarrow> val)
      \<Rightarrow> int \<Rightarrow> int \<Rightarrow> 'g \<Rightarrow> bool" where
  "same_at_cutoff B P s s' depth td game \<equiv>
     (td \<le> depth \<longrightarrow>
        (\<forall>g \<in> set (plies B (nat (depth - td)) game). s g (self_player P) = s' g (self_player P)))"

section \<open>Concrete boards\<close>

text \<open>
  A corridor game as an instance of the board interface: the state is the number of
  free cells left, the players alternate, the active player steps onto the next cell,
  and a player who is not to move has no legal move. The player to move in state \<open>0\<close>
  has lost.
\<close>

datatype player = Player1 | Player2

definition other :: "player \<Rightarrow> player" where
  "other p = (case p of Player1 \<Rightarrow> Player2 | Player2 \<Rightarrow> Player1)"

definition active :: "nat \<Rightarrow> player" where
  "active n = (if even n then Player1 else Player2)"

definition line_moves :: "nat \<Rightarrow> move list" where
  "line_moves g = (if g = 0 then [] else [(0, int g - 1)])"

definition line_game :: "(nat, player) board_api" where
  "line_game =
     \<lparr> get_legal_moves =
         (\<lambda>g p. case p of None \<Rightarrow> line_moves g
                 | Some q \<Rightarrow> if q = active g then line_moves g else []),
       forecast_move = (\<lambda>g m. g - 1),
       is_loser = (\<lambda>g p. g = 0 \<and> p = active g),
       is_winner = (\<lambda>g p. g = 0 \<and> p \<noteq> active g),
       get_opponent = (\<lambda>g p. other p),
       get_blank_spaces = (\<lambda>g. map (\<lambda>i. (0, int i)) [0..<g]),
       get_player_location = (\<lambda>g p. if p = active g then Some (0, int g) else Some (1, 0)),
       width = (\<lambda>g. 7),
       height = (\<lambda>g. 7) \<rparr>"

definition line_player :: "(nat, player) isolation_player" where
  "line_player =
     \<lparr> self_player = Player1, search_depth = 3, score = custom_score_2 line_game,
       time_left = (\<lambda>k. 0), TIMER_THRESHOLD = 20 \<rparr>"



definition three_ticks :: "nat \<Rightarrow> real" where
  "three_ticks k = (if k < 3 then 100 else 0)"

definition five_ticks :: "nat \<Rightarrow> real" where
  "five_ticks k = (if k < 5 then 100 else 0)"

text \<open>
  A game given by a table of successors, with moves in the order of the table, and two
  small instances. In \<open>fork_succs\<close> every branch is two plies long. In \<open>trap_succs\<close> the
  first move of the root leads to a state without moves. The scores are plain numbers.
\<close>

definition table_game :: "(nat \<Rightarrow> (move \<times> nat) list) \<Rightarrow> (nat, player) board_api" where
  "table_game succs =
     \<lparr> get_legal_moves = (\<lambda>g p. map fst (succs g)),
       forecast_move = (\<lambda>g m. case map_of (succs g) m of Some g' \<Rightarrow> g' | None \<Rightarrow> g),
       is_loser = (\<lambda>g p. False),
       is_winner = (\<lambda>g p. False),
       get_opponent = (\<lambda>g p. other p),
       get_blank_spaces = (\<lambda>g. []),
       get_player_location = (\<lambda>g p. None),
       width = (\<lambda>g. 7),
       height = (\<lambda>g. 7) \<rparr>"

definition fork_succs :: "nat \<Rightarrow> (move \<times> nat) list" where
  "fork_succs g =
     (if g = 0 then [((0, 0), 1), ((0, 1), 2)]
      else if g = 1 then [((1, 0), 3), ((1, 1), 4)]
      else if g = 2 then [((1, 0), 5), ((1, 1), 6)]
      else [])"

definition fork_score :: "nat \<Rightarrow> player \<Rightarrow> val" where
  "fork_score g p =
     (if g = 3 then Fin 3 else if g = 4 then Fin 5 else if g = 5 then Fin 2
      else if g = 6 then Fin 9 else Fin 0)"

definition fork_player :: "(nat, player) isolation_player" where
  "fork_player =
     \<lparr> self_player = Player1, search_depth = 2, score = fork_score,
       time_left = (\<lambda>k. 100), TIMER_THRESHOLD = 20 \<rparr>"

definition trap_succs :: "nat \<Rightarrow> (move \<times> nat) list" where
  "trap_succs g =
     (if g = 0 then [((0, 0), 1), ((0, 1), 2)]
      else if g = 2 then [((1, 0), 3)]
      else [])"

definition trap_score :: "nat \<Rightarrow> player \<Rightarrow> val" where
  "trap_score g p = (if g = 3 then Fin 5 else Fin 0)"

definition trap_player :: "(nat, player) isolation_player" where
  "trap_player =
     \<lparr> self_player = Player1, search_depth = 2, score = trap_score,
       time_left = (\<lambda>k. 100), TIMER_THRESHOLD = 20 \<rparr>"

definition other_trap_score :: "nat \<Rightarrow> player \<Rightarrow> val" where
  "other_trap_score g p = (if g = 3 then Fin 5 else Fin 7)"

text \<open>
  The board of seven by seven cells with the first player on the centre cell \<open>(3, 3)\<close>,
  the second player in the corner \<open>(0, 0)\<close>, every other cell blank, and the first
  player to move.
\<close>

definition knight_moves :: "move \<Rightarrow> move list" where
  "knight_moves c =
     filter (\<lambda>(r, c). 0 \<le> r \<and> r < 7 \<and> 0 \<le> c \<and> c < 7)
       (map (\<lambda>(dr, dc). (fst c + dr, snd c + dc))
          [(-2, -1), (-2, 1), (-1, -2), (-1, 2), (1, -2), (1, 2), (2, -1), (2, 1)])"

definition centre_board :: "(unit, player) board_api" where
  "centre_board =
     \<lparr> get_legal_moves =
         (\<lambda>g p. case p of None \<Rightarrow> knight_moves (3, 3)
                 | Some q \<Rightarrow> if q = Player1 then knight_moves (3, 3) else knight_moves (0, 0)),
       forecast_move = (\<lambda>g m. g),
       is_loser = (\<lambda>g p. False),
       is_winner = (\<lambda>g p. False),
       get_opponent = (\<lambda>g p. other p),
       get_blank_spaces =
         (\<lambda>g. filter (\<lambda>c. c \<noteq> (3, 3) \<and> c \<noteq> (0, 0))
                (concat (map (\<lambda>i. map (\<lambda>j. (int i, int j)) [0..<7]) [0..<7]))),
       get_player_location = (\<lambda>g p. if p = Player1 then Some (3, 3) else Some (0, 0)),
       width = (\<lambda>g. 7),
       height = (\<lambda>g. 7) \<rparr>"

section \<open>Properties\<close>

declare mm_min_value.simps [simp del] mm_max_value.simps [simp del]
  ab_min_value.simps [simp del] ab_max_value.simps [simp del]

lemmas search_simps = mm_min_value.simps mm_max_value.simps ab_min_value.simps
  ab_max_value.simps minimax_def alphabeta_def

lemmas table_simps = table_game_def fork_succs_def fork_score_def fork_player_def
  trap_succs_def trap_score_def trap_player_def

lemmas line_simps = line_game_def line_moves_def line_player_def active_def other_def
  custom_score_2_def

subsection \<open>Order of the values\<close>

lemma val_le_PInf [simp]: "x \<le> PInf"
  by (cases x) (simp_all add: less_eq_val_def)

lemma val_MInf_le [simp]: "MInf \<le> x"
  by (simp add: less_eq_val_def)

lemma val_PInf_le_iff [simp]: "PInf \<le> x \<longleftrightarrow> x = PInf"
  by (cases x) (simp_all add: less_eq_val_def)

lemma val_le_MInf_iff [simp]: "x \<le> MInf \<longleftrightarrow> x = MInf"
  by (cases x) (simp_all add: less_eq_val_def)

lemma val_not_PInf_less [simp]: "\<not> PInf < x"
  by (simp add: not_less)

lemma val_not_less_MInf [simp]: "\<not> x < MInf"
  by (simp add: not_less)

lemma val_less_PInf_iff: "x < PInf \<longleftrightarrow> x \<noteq> PInf"
  by (cases x) (simp_all add: less_val_def)

lemma val_MInf_less_iff: "MInf < x \<longleftrightarrow> x \<noteq> MInf"
  by (cases x) (simp_all add: less_val_def)

lemma val_Fin_le [simp]: "Fin a \<le> Fin b \<longleftrightarrow> a \<le> b"
  by (simp add: less_eq_val_def)

lemma val_Fin_less [simp]: "Fin a < Fin b \<longleftrightarrow> a < b"
  by (auto simp add: less_val_def)

lemma val_min_PInf [simp]: "min PInf x = x" "min x PInf = x"
  by (simp_all add: min_def)

lemma val_max_MInf [simp]: "max MInf x = x" "max x MInf = x"
  by (simp_all add: max_def)

subsection \<open>Degenerate state and immediate timeout\<close>

text \<open>
  Claim C8. For a state with zero legal moves both \<^verbatim>\<open>MinimaxPlayer.get_move\<close> and
  \<^verbatim>\<open>AlphaBetaPlayer.get_move\<close> return the sentinel \<open>(-1, -1)\<close> at once: for every
  score function and every bound on the recursion, and without a single call of
  \<open>time_left\<close>, with which every step of the recursion begins.
\<close>

theorem no_moves_sentinel:
  assumes "get_legal_moves B game None = []"
  shows "mm_get_move B P fuel game tleft k = Some (Inr (-1, -1), k)
       \<and> ab_get_move B P fuel game tleft k = Some (Inr (-1, -1), k)"
  using assms by (simp add: mm_get_move_def ab_get_move_def)

theorem no_moves_sentinel_witness:
  "get_legal_moves line_game 0 None = []
   \<and> mm_get_move line_game line_player 0 0 (\<lambda>k. 100) 0 = Some (Inr (-1, -1), 0)
   \<and> ab_get_move line_game line_player 0 0 (\<lambda>k. 100) 0 = Some (Inr (-1, -1), 0)"
proof -
  have h: "get_legal_moves line_game 0 None = []"
    by (simp add: line_game_def line_moves_def)
  show ?thesis
    using h no_moves_sentinel [OF h, of line_player 0 "\<lambda>k. 100" 0] by simp
qed

text \<open>
  Claim C7. For a state with at least one legal move, when the first call of
  \<open>time_left\<close> reports less than the threshold, both agents return the first element of
  the list of legal moves.
\<close>

theorem first_check_timeout:
  assumes "get_legal_moves B game None \<noteq> []"
    and "tleft k < TIMER_THRESHOLD P"
  shows "mm_get_move B P fuel game tleft k = Some (Inr (hd (get_legal_moves B game None)), Suc k)
       \<and> ab_get_move B P fuel game tleft k = Some (Inr (hd (get_legal_moves B game None)), Suc k)"
proof -
  obtain m ms where ms: "get_legal_moves B game None = m # ms"
    using assms(1) by (cases "get_legal_moves B game None") auto
  have "mm_get_move B P fuel game tleft k = Some (Inr m, Suc k)"
    using assms(2) by (simp add: mm_get_move_def minimax_def ms mm_min_value.simps)
  moreover have "ab_get_move B P fuel game tleft k = Some (Inr m, Suc k)"
    using assms(2) by (simp add: ab_get_move_def ms ab_deepen.simps)
  ultimately show ?thesis by (simp add: ms)
qed

theorem first_check_timeout_witness:
  "get_legal_moves line_game 3 None \<noteq> []
   \<and> (0::real) < TIMER_THRESHOLD line_player
   \<and> mm_get_move line_game line_player 0 3 (\<lambda>k. 0) 0 = Some (Inr (0, 2), 1)
   \<and> ab_get_move line_game line_player 0 3 (\<lambda>k. 0) 0 = Some (Inr (0, 2), 1)"
proof -
  have h1: "get_legal_moves line_game 3 None \<noteq> []"
    by (simp add: line_game_def line_moves_def)
  have h2: "(\<lambda>k. 0::real) 0 < TIMER_THRESHOLD line_player"
    by (simp add: line_player_def)
  have h3: "hd (get_legal_moves line_game 3 None) = (0, 2)"
    by (simp add: line_game_def line_moves_def)
  show ?thesis
    using h1 h2 first_check_timeout [OF h1 h2, of 0] by (simp add: h3)
qed

subsection \<open>The score functions at terminal states\<close>

text \<open>
  Claim C9. Each of \<^verbatim>\<open>custom_score\<close>, \<^verbatim>\<open>custom_score_2\<close> and \<^verbatim>\<open>custom_score_3\<close> returns
  negative infinity when the player has lost and positive infinity when the player has
  won, before anything else: whatever the rest of the board says and whatever the bound
  on the recursion. The test for the loser comes first.
\<close>

theorem terminal_scores:
  "(is_loser B game player \<longrightarrow>
      custom_score B fuel game player = Some MInf
      \<and> custom_score_2 B game player = MInf
      \<and> custom_score_3 B game player = Inr MInf)
   \<and> (is_winner B game player \<and> \<not> is_loser B game player \<longrightarrow>
      custom_score B fuel game player = Some PInf
      \<and> custom_score_2 B game player = PInf
      \<and> custom_score_3 B game player = Inr PInf)"
  by (simp add: custom_score_def custom_score_2_def custom_score_3_def)

theorem terminal_scores_witness:
  "is_loser line_game 0 Player1
   \<and> custom_score line_game 0 0 Player1 = Some MInf
   \<and> custom_score_2 line_game 0 Player1 = MInf
   \<and> custom_score_3 line_game 0 Player1 = Inr MInf
   \<and> is_winner line_game 0 Player2 \<and> \<not> is_loser line_game 0 Player2
   \<and> custom_score line_game 0 0 Player2 = Some PInf
   \<and> custom_score_2 line_game 0 Player2 = PInf
   \<and> custom_score_3 line_game 0 Player2 = Inr PInf"
proof -
  have l: "is_loser line_game 0 Player1"
    by (simp add: line_game_def active_def)
  have w: "is_winner line_game 0 Player2 \<and> \<not> is_loser line_game 0 Player2"
    by (simp add: line_game_def active_def)
  show ?thesis
    using l w terminal_scores [of line_game 0 Player1 0]
      terminal_scores [of line_game 0 Player2 0]
    by simp
qed

subsection \<open>Timeouts unwind to the top\<close>

















subsection \<open>Iterative deepening returns the result of the last completed depth\<close>

lemma ab_deepen_iterations:
  "ab_iterations B P fuel game best_move n k = Some (last_move, k1) \<Longrightarrow>
   ab_deepen B P fuel game best_move 1 k = ab_deepen B P fuel game last_move (int n + 1) k1"
proof (induction n arbitrary: last_move k1)
  case 0
  then show ?case by simp
next
  case (Suc n)
  from Suc.prems obtain lm ka where
    prev: "ab_iterations B P fuel game best_move n k = Some (lm, ka)"
    and ok: "TIMER_THRESHOLD P < time_left P ka"
    and run: "alphabeta B P fuel game (int n + 1) MInf PInf (Suc ka) = Some (Inr last_move, k1)"
    by (auto split: option.splits if_splits sum.splits prod.splits)
  have "ab_deepen B P fuel game best_move 1 k = ab_deepen B P fuel game lm (int n + 1) ka"
    using prev by (rule Suc.IH)
  also have "\<dots> = ab_deepen B P fuel game last_move (int n + 1 + 1) k1"
    using ok run by (subst ab_deepen.simps) simp
  finally show ?case by (simp add: add.commute add.left_commute)
qed

lemma ab_iterations_result:
  "ab_iterations B P fuel game best_move n k = Some (last_move, k1) \<Longrightarrow>
   (n = 0 \<longrightarrow> last_move = best_move)
   \<and> (0 < n \<longrightarrow> (\<exists>ka kb. alphabeta B P fuel game (int n) MInf PInf ka = Some (Inr last_move, kb)))"
proof (cases n)
  case 0
  assume "ab_iterations B P fuel game best_move n k = Some (last_move, k1)"
  then show ?thesis using 0 by simp
next
  case (Suc n')
  assume "ab_iterations B P fuel game best_move n k = Some (last_move, k1)"
  then obtain ka where
    "alphabeta B P fuel game (int n' + 1) MInf PInf (Suc ka) = Some (Inr last_move, k1)"
    unfolding Suc by (auto split: option.splits if_splits sum.splits prod.splits)
  then show ?thesis using Suc by (auto simp add: add.commute)
qed

text \<open>
  Claim C3. When the clock lets the iterations at depths \<open>1\<close> to \<open>N\<close> of
  \<^verbatim>\<open>AlphaBetaPlayer.get_move\<close> run to their end and the search at depth \<open>N + 1\<close> raises
  \<^verbatim>\<open>SearchTimeout\<close>, the move returned is the one the search at depth \<open>N\<close> returned (the
  first legal move when \<open>N = 0\<close>): nothing of the aborted iteration enters the result.
\<close>

theorem deepening_returns_last_completed:
  assumes moves: "get_legal_moves B game None \<noteq> []"
    and its: "ab_iterations B (P\<lparr>time_left := tleft\<rparr>) fuel game
                 (hd (get_legal_moves B game None)) N k = Some (last_move, k1)"
    and ok: "TIMER_THRESHOLD P < tleft k1"
    and abort: "alphabeta B (P\<lparr>time_left := tleft\<rparr>) fuel game (int N + 1) MInf PInf (Suc k1)
                 = Some (Inl SearchTimeout, k2)"
  shows "ab_get_move B P fuel game tleft k = Some (Inr last_move, k2)
       \<and> (N = 0 \<longrightarrow> last_move = hd (get_legal_moves B game None))
       \<and> (0 < N \<longrightarrow> (\<exists>ka kb. alphabeta B (P\<lparr>time_left := tleft\<rparr>) fuel game (int N) MInf PInf ka
                               = Some (Inr last_move, kb)))"
proof -
  let ?P = "P\<lparr>time_left := tleft\<rparr>"
  obtain m ms where ms: "get_legal_moves B game None = m # ms"
    using moves by (cases "get_legal_moves B game None") auto
  have "ab_get_move B P fuel game tleft k = ab_deepen B ?P fuel game m 1 k"
    by (simp add: ab_get_move_def ms)
  also have "\<dots> = ab_deepen B ?P fuel game last_move (int N + 1) k1"
    using its by (intro ab_deepen_iterations) (simp add: ms)
  also have "\<dots> = Some (Inr last_move, k2)"
    using ok abort by (subst ab_deepen.simps) simp
  finally have "ab_get_move B P fuel game tleft k = Some (Inr last_move, k2)" .
  then show ?thesis using ab_iterations_result [OF its] by simp
qed

theorem deepening_returns_last_completed_witness:
  "get_legal_moves line_game 2 None \<noteq> []
   \<and> ab_iterations line_game (line_player\<lparr>time_left := three_ticks\<rparr>) 1 2
        (hd (get_legal_moves line_game 2 None)) 1 0 = Some ((0, 1), 2)
   \<and> TIMER_THRESHOLD line_player < three_ticks 2
   \<and> alphabeta line_game (line_player\<lparr>time_left := three_ticks\<rparr>) 1 2 (int 1 + 1) MInf PInf
        (Suc 2) = Some (Inl SearchTimeout, 4)
   \<and> ab_get_move line_game line_player 1 2 three_ticks 0 = Some (Inr (0, 1), 4)
   \<and> (\<exists>ka kb. alphabeta line_game (line_player\<lparr>time_left := three_ticks\<rparr>) 1 2 (int 1)
                 MInf PInf ka = Some (Inr (0, 1), kb))"
proof -
  let ?P = "line_player\<lparr>time_left := three_ticks\<rparr>"
  have moves: "get_legal_moves line_game 2 None \<noteq> []"
    by (simp add: line_simps)
  have "alphabeta line_game ?P 1 2 1 MInf PInf 1 = Some (Inr (0, 1), 2)"
    by (simp add: search_simps line_simps three_ticks_def val_MInf_less_iff)
  then have its: "ab_iterations line_game ?P 1 2 (hd (get_legal_moves line_game 2 None)) 1 0
      = Some ((0, 1), 2)"
    by (simp add: line_player_def three_ticks_def)
  have ok: "TIMER_THRESHOLD line_player < three_ticks 2"
    by (simp add: line_player_def three_ticks_def)
  have abort: "alphabeta line_game ?P 1 2 (int 1 + 1) MInf PInf (Suc 2)
      = Some (Inl SearchTimeout, 4)"
    by (simp add: search_simps line_simps three_ticks_def)
  show ?thesis
    using moves its ok abort deepening_returns_last_completed [OF moves its ok abort]
    by simp
qed

subsection \<open>Nodes without legal moves\<close>

lemma same_at_cutoff_child:
  assumes "same_at_cutoff B P s s' depth td game" and "td \<noteq> depth"
    and "m \<in> set (get_legal_moves B game None)"
  shows "same_at_cutoff B P s s' depth (td + 1) (forecast_move B game m)"
proof
  assume le: "td + 1 \<le> depth"
  then have n: "nat (depth - td) = Suc (nat (depth - (td + 1)))" by simp
  have "set (plies B (nat (depth - (td + 1))) (forecast_move B game m))
          \<subseteq> set (plies B (nat (depth - td)) game)"
    unfolding n using assms(3) by auto
  then show "\<forall>g \<in> set (plies B (nat (depth - (td + 1))) (forecast_move B game m)).
      s g (self_player P) = s' g (self_player P)"
    using assms(1) le by auto
qed

lemma mm_min_loop_score:
  assumes child: "\<And>f g k. fuel = Suc f \<Longrightarrow> same_at_cutoff B P s s' depth td g \<Longrightarrow>
        mm_max_value B (P\<lparr>score := s\<rparr>) depth f g td k
          = mm_max_value B (P\<lparr>score := s'\<rparr>) depth f g td k"
    and kids: "\<forall>m \<in> set ms. same_at_cutoff B P s s' depth td (forecast_move B game m)"
  shows "mm_min_loop B (P\<lparr>score := s\<rparr>) depth fuel game ms td v k
       = mm_min_loop B (P\<lparr>score := s'\<rparr>) depth fuel game ms td v k"
  using kids
proof (induction ms arbitrary: v k)
  case Nil
  show ?case by simp
next
  case (Cons m ms)
  have ih: "\<And>v k. mm_min_loop B (P\<lparr>score := s\<rparr>) depth fuel game ms td v k
       = mm_min_loop B (P\<lparr>score := s'\<rparr>) depth fuel game ms td v k"
    using Cons.IH Cons.prems by simp
  have c: "\<And>f k. fuel = Suc f \<Longrightarrow>
        mm_max_value B (P\<lparr>score := s\<rparr>) depth f (forecast_move B game m) td k
          = mm_max_value B (P\<lparr>score := s'\<rparr>) depth f (forecast_move B game m) td k"
    using child Cons.prems by simp
  show ?case
  proof (cases fuel)
    case 0
    then show ?thesis by simp
  next
    case (Suc f)
    show ?thesis
      unfolding Suc using ih [unfolded Suc] c [OF Suc]
      by (simp split: option.split prod.split sum.split)
  qed
qed

lemma mm_max_loop_score:
  assumes child: "\<And>f g k. fuel = Suc f \<Longrightarrow> same_at_cutoff B P s s' depth td g \<Longrightarrow>
        mm_min_value B (P\<lparr>score := s\<rparr>) depth f g td k
          = mm_min_value B (P\<lparr>score := s'\<rparr>) depth f g td k"
    and kids: "\<forall>m \<in> set ms. same_at_cutoff B P s s' depth td (forecast_move B game m)"
  shows "mm_max_loop B (P\<lparr>score := s\<rparr>) depth fuel game ms td v k
       = mm_max_loop B (P\<lparr>score := s'\<rparr>) depth fuel game ms td v k"
  using kids
proof (induction ms arbitrary: v k)
  case Nil
  show ?case by simp
next
  case (Cons m ms)
  have ih: "\<And>v k. mm_max_loop B (P\<lparr>score := s\<rparr>) depth fuel game ms td v k
       = mm_max_loop B (P\<lparr>score := s'\<rparr>) depth fuel game ms td v k"
    using Cons.IH Cons.prems by simp
  have c: "\<And>f k. fuel = Suc f \<Longrightarrow>
        mm_min_value B (P\<lparr>score := s\<rparr>) depth f (forecast_move B game m) td k
          = mm_min_value B (P\<lparr>score := s'\<rparr>) depth f (forecast_move B game m) td k"
    using child Cons.prems by simp
  show ?case
  proof (cases fuel)
    case 0
    then show ?thesis by simp
  next
    case (Suc f)
    show ?thesis
      unfolding Suc using ih [unfolded Suc] c [OF Suc]
      by (simp split: option.split prod.split sum.split)
  qed
qed

lemma mm_score_only_at_cutoff:
  "same_at_cutoff B P s s' depth td game \<Longrightarrow>
     mm_min_value B (P\<lparr>score := s\<rparr>) depth fuel game td k
       = mm_min_value B (P\<lparr>score := s'\<rparr>) depth fuel game td k
   \<and> mm_max_value B (P\<lparr>score := s\<rparr>) depth fuel game td k
       = mm_max_value B (P\<lparr>score := s'\<rparr>) depth fuel game td k"
proof (induction fuel arbitrary: game td k)
  case 0
  have kids: "td \<noteq> depth \<Longrightarrow> \<forall>m \<in> set (get_legal_moves B game None).
      same_at_cutoff B P s s' depth (td + 1) (forecast_move B game m)"
    using same_at_cutoff_child [where B = B and P = P and s = s and s' = s' and depth = depth
        and td = td and game = game] "0.prems"
    by blast
  have lmin: "td \<noteq> depth \<Longrightarrow>
      mm_min_loop B (P\<lparr>score := s\<rparr>) depth 0 game (get_legal_moves B game None) (td + 1) v k'
       = mm_min_loop B (P\<lparr>score := s'\<rparr>) depth 0 game (get_legal_moves B game None) (td + 1) v k'"
    for v k'
    using kids by (intro mm_min_loop_score) simp_all
  have lmax: "td \<noteq> depth \<Longrightarrow>
      mm_max_loop B (P\<lparr>score := s\<rparr>) depth 0 game (get_legal_moves B game None) (td + 1) v k'
       = mm_max_loop B (P\<lparr>score := s'\<rparr>) depth 0 game (get_legal_moves B game None) (td + 1) v k'"
    for v k'
    using kids by (intro mm_max_loop_score) simp_all
  have here: "td = depth \<Longrightarrow> s game (self_player P) = s' game (self_player P)"
    using "0.prems" by simp
  show ?case
    using lmin lmax here by (simp add: mm_min_value.simps mm_max_value.simps)
next
  case (Suc fuel)
  have kids: "td \<noteq> depth \<Longrightarrow> \<forall>m \<in> set (get_legal_moves B game None).
      same_at_cutoff B P s s' depth (td + 1) (forecast_move B game m)"
    using same_at_cutoff_child [where B = B and P = P and s = s and s' = s' and depth = depth
        and td = td and game = game] Suc.prems
    by blast
  have lmin: "td \<noteq> depth \<Longrightarrow>
      mm_min_loop B (P\<lparr>score := s\<rparr>) depth (Suc fuel) game (get_legal_moves B game None) (td + 1) v k'
       = mm_min_loop B (P\<lparr>score := s'\<rparr>) depth (Suc fuel) game (get_legal_moves B game None)
           (td + 1) v k'"
    for v k'
    using kids Suc.IH by (intro mm_min_loop_score) simp_all
  have lmax: "td \<noteq> depth \<Longrightarrow>
      mm_max_loop B (P\<lparr>score := s\<rparr>) depth (Suc fuel) game (get_legal_moves B game None) (td + 1) v k'
       = mm_max_loop B (P\<lparr>score := s'\<rparr>) depth (Suc fuel) game (get_legal_moves B game None)
           (td + 1) v k'"
    for v k'
    using kids Suc.IH by (intro mm_max_loop_score) simp_all
  have here: "td = depth \<Longrightarrow> s game (self_player P) = s' game (self_player P)"
    using Suc.prems by simp
  show ?case
    using lmin lmax here by (simp add: mm_min_value.simps mm_max_value.simps)
qed

text \<open>
  Claim C10. In \<^verbatim>\<open>MinimaxPlayer.minimax\<close>, a node above the cutoff that has no legal moves
  yields positive infinity from \<^verbatim>\<open>min_value\<close> and negative infinity from \<^verbatim>\<open>max_value\<close>,
  whatever the score function is. The result of the recursion depends on the score
  function only through its values at the nodes at the cutoff depth. The recursion of
  \<^verbatim>\<open>alphabeta\<close>, in contrast, returns the score of a node without legal moves at any
  depth.
\<close>

theorem minimax_dead_end_values:
  "(\<not> time_left P k < TIMER_THRESHOLD P \<and> td \<noteq> depth \<and> get_legal_moves B game None = [] \<longrightarrow>
      mm_min_value B P depth fuel game td k = Some (Inr PInf, Suc k)
      \<and> mm_max_value B P depth fuel game td k = Some (Inr MInf, Suc k))
   \<and> (\<not> time_left P k < TIMER_THRESHOLD P \<and> get_legal_moves B game None = [] \<longrightarrow>
      ab_min_value B P fuel game d alpha beta k = Some (Inr (score P game (self_player P)), Suc k)
      \<and> ab_max_value B P fuel game d alpha beta k
          = Some (Inr (score P game (self_player P)), Suc k))
   \<and> ((td \<le> depth \<longrightarrow>
          (\<forall>g \<in> set (plies B (nat (depth - td)) game).
              s g (self_player P) = s' g (self_player P))) \<longrightarrow>
      mm_min_value B (P\<lparr>score := s\<rparr>) depth fuel game td k
        = mm_min_value B (P\<lparr>score := s'\<rparr>) depth fuel game td k
      \<and> mm_max_value B (P\<lparr>score := s\<rparr>) depth fuel game td k
        = mm_max_value B (P\<lparr>score := s'\<rparr>) depth fuel game td k)"
proof (intro conjI)
  show "\<not> time_left P k < TIMER_THRESHOLD P \<and> td \<noteq> depth \<and> get_legal_moves B game None = [] \<longrightarrow>
      mm_min_value B P depth fuel game td k = Some (Inr PInf, Suc k)
      \<and> mm_max_value B P depth fuel game td k = Some (Inr MInf, Suc k)"
    by (simp add: mm_min_value.simps mm_max_value.simps)
  show "\<not> time_left P k < TIMER_THRESHOLD P \<and> get_legal_moves B game None = [] \<longrightarrow>
      ab_min_value B P fuel game d alpha beta k = Some (Inr (score P game (self_player P)), Suc k)
      \<and> ab_max_value B P fuel game d alpha beta k
          = Some (Inr (score P game (self_player P)), Suc k)"
    by (simp add: ab_min_value.simps ab_max_value.simps)
  show "(td \<le> depth \<longrightarrow>
          (\<forall>g \<in> set (plies B (nat (depth - td)) game).
              s g (self_player P) = s' g (self_player P))) \<longrightarrow>
      mm_min_value B (P\<lparr>score := s\<rparr>) depth fuel game td k
        = mm_min_value B (P\<lparr>score := s'\<rparr>) depth fuel game td k
      \<and> mm_max_value B (P\<lparr>score := s\<rparr>) depth fuel game td k
        = mm_max_value B (P\<lparr>score := s'\<rparr>) depth fuel game td k"
    using mm_score_only_at_cutoff [where B = B and P = P and s = s and s' = s'
        and depth = depth and td = td and game = game and fuel = fuel and k = k]
    by blast
qed

theorem minimax_dead_end_values_witness:
  "\<not> time_left trap_player 0 < TIMER_THRESHOLD trap_player
   \<and> (1::int) \<noteq> 2
   \<and> get_legal_moves (table_game trap_succs) 1 None = []
   \<and> mm_min_value (table_game trap_succs) trap_player 2 0 1 1 0 = Some (Inr PInf, 1)
   \<and> mm_max_value (table_game trap_succs) trap_player 2 0 1 1 0 = Some (Inr MInf, 1)
   \<and> ab_min_value (table_game trap_succs) trap_player 0 1 1 MInf PInf 0 = Some (Inr (Fin 0), 1)
   \<and> ab_max_value (table_game trap_succs) trap_player 0 1 1 MInf PInf 0 = Some (Inr (Fin 0), 1)
   \<and> plies (table_game trap_succs) (nat (2 - 1)) 2 = [3]
   \<and> trap_score 3 (self_player trap_player) = other_trap_score 3 (self_player trap_player)
   \<and> mm_min_value (table_game trap_succs) (trap_player\<lparr>score := trap_score\<rparr>) 2 1 2 1 0
        = mm_min_value (table_game trap_succs) (trap_player\<lparr>score := other_trap_score\<rparr>) 2 1 2 1 0"
proof -
  have h1: "\<not> time_left trap_player 0 < TIMER_THRESHOLD trap_player"
    by (simp add: trap_player_def)
  have h2: "get_legal_moves (table_game trap_succs) 1 None = []"
    by (simp add: table_simps)
  have h3: "\<forall>g \<in> set (plies (table_game trap_succs) (nat (2 - 1)) 2).
         trap_score g (self_player trap_player) = other_trap_score g (self_player trap_player)"
    by (simp add: table_simps other_trap_score_def)
  have h4: "score trap_player 1 (self_player trap_player) = Fin 0"
    by (simp add: table_simps)
  note a = minimax_dead_end_values [where P = trap_player and k = 0 and td = 1 and depth = 2
      and B = "table_game trap_succs" and game = 1 and fuel = 0 and d = 1 and alpha = MInf
      and beta = PInf and s = trap_score and s' = other_trap_score]
  note b = minimax_dead_end_values [where P = trap_player and k = 0 and td = 1 and depth = 2
      and B = "table_game trap_succs" and game = 2 and fuel = 1 and d = 1 and alpha = MInf
      and beta = PInf and s = trap_score and s' = other_trap_score]
  have h5: "plies (table_game trap_succs) (nat (2 - 1)) 2 = [3]
      \<and> trap_score 3 (self_player trap_player) = other_trap_score 3 (self_player trap_player)"
    by (simp add: table_simps other_trap_score_def)
  show ?thesis using h1 h2 h3 h4 h5 a b by simp
qed

subsection \<open>Pruning does not change the value\<close>

lemma min_fold_le: "min_fold B P n game ms u \<le> u"
proof (induction ms arbitrary: u)
  case Nil
  show ?case by simp
next
  case (Cons m ms)
  have "min_fold B P n game ms (min u (bv_max B P n (forecast_move B game m)))
          \<le> min u (bv_max B P n (forecast_move B game m))"
    by (rule Cons.IH)
  then show ?case by simp
qed

lemma max_fold_ge: "u \<le> max_fold B P n game ms u"
proof (induction ms arbitrary: u)
  case Nil
  show ?case by simp
next
  case (Cons m ms)
  have "max u (bv_min B P n (forecast_move B game m))
          \<le> max_fold B P n game ms (max u (bv_min B P n (forecast_move B game m)))"
    by (rule Cons.IH)
  then show ?case by simp
qed

lemma window_sound_low: "r \<le> a \<Longrightarrow> a < b \<Longrightarrow> v \<le> r \<Longrightarrow> window_sound a b v r"
  by (auto simp add: window_sound_def split: if_splits)

lemma window_sound_high: "b \<le> r \<Longrightarrow> a < b \<Longrightarrow> r \<le> v \<Longrightarrow> window_sound a b v r"
  by (auto simp add: window_sound_def split: if_splits)

lemma min_step_invariant:
  fixes alpha beta0 beta v u x t :: val
  assumes fx: "window_sound alpha beta x' x" and "beta = min beta0 v" and "alpha < v"
    and "v \<le> u" and "v < beta0 \<longrightarrow> u = v" and av: "alpha < min v x"
  shows "min beta (min v x) = min beta0 (min v x)"
    and "min v x \<le> min u x'"
    and "min v x < beta0 \<longrightarrow> min u x' = min v x"
proof -
  have ax: "alpha < x" using av by simp
  have xt: "x \<le> x'"
    using fx ax by (cases "x < beta") (auto simp add: window_sound_def split: if_splits)
  show "min beta (min v x) = min beta0 (min v x)"
    using assms(2) by (auto simp add: min_def)
  show "min v x \<le> min u x'"
    using xt assms(4) by (auto simp add: min_def)
  show "min v x < beta0 \<longrightarrow> min u x' = min v x"
  proof
    assume lt: "min v x < beta0"
    show "min u x' = min v x"
    proof (cases "x < v")
      case True
      then have "x < beta0" using lt by (auto simp add: min_def split: if_splits)
      then have "x < beta" using True assms(2) by (auto simp add: min_def)
      then have "x = x'" using fx ax by (auto simp add: window_sound_def split: if_splits)
      then show ?thesis using True assms(4) by (auto simp add: min_def)
    next
      case False
      then have vx: "min v x = v" by (auto simp add: min_def)
      then have "u = v" using lt assms(5) by simp
      then show ?thesis using xt False vx by (auto simp add: min_def)
    qed
  qed
qed

lemma abv_min_loop_window_sound:
  assumes child: "\<And>m a b. m \<in> set ms \<Longrightarrow> a < b \<Longrightarrow>
             window_sound a b (bv_max B P n (forecast_move B game m))
               (abv_max B P n (forecast_move B game m) a b)"
    and "alpha < beta0" and "beta = min beta0 v" and "alpha < v" and "v \<le> u"
    and "v < beta0 \<longrightarrow> u = v"
  shows "window_sound alpha beta0 (min_fold B P n game ms u) (abv_min_loop B P n game ms alpha beta v)"
  using assms
proof (induction ms arbitrary: beta v u)
  case Nil
  then show ?case by (auto simp add: window_sound_def split: if_splits)
next
  case (Cons m ms)
  define x where "x = abv_max B P n (forecast_move B game m) alpha beta"
  define t where "t = bv_max B P n (forecast_move B game m)"
  have ab: "alpha < beta" using Cons.prems(2,3,4) by simp
  have fx: "window_sound alpha beta t x"
    unfolding x_def t_def using Cons.prems(1) [of m alpha beta] ab by simp
  have unfold_loop: "abv_min_loop B P n game (m # ms) alpha beta v =
      (if min v x \<le> alpha then min v x
       else abv_min_loop B P n game ms alpha (min beta (min v x)) (min v x))"
    by (simp add: x_def Let_def)
  have unfold_fold: "min_fold B P n game (m # ms) u = min_fold B P n game ms (min u t)"
    by (simp add: t_def)
  show ?case
  proof (cases "min v x \<le> alpha")
    case True
    then have xa: "x \<le> alpha" and vx: "min v x = x"
      using Cons.prems(4) by (auto simp add: min_def split: if_splits)
    have "t \<le> x" using fx xa by (auto simp add: window_sound_def split: if_splits)
    moreover have "min_fold B P n game ms (min u t) \<le> min u t"
      by (rule min_fold_le)
    ultimately have le: "min_fold B P n game ms (min u t) \<le> x" by auto
    have "window_sound alpha beta0 (min_fold B P n game ms (min u t)) x"
      using xa Cons.prems(2) le by (rule window_sound_low)
    then show ?thesis
      unfolding unfold_loop unfold_fold using True vx by simp
  next
    case False
    then have av: "alpha < min v x" by (simp add: not_le)
    note inv = min_step_invariant [OF fx Cons.prems(3,4,5,6) av]
    have "window_sound alpha beta0 (min_fold B P n game ms (min u t))
            (abv_min_loop B P n game ms alpha (min beta (min v x)) (min v x))"
    proof (rule Cons.IH)
      show "\<And>m a b. m \<in> set ms \<Longrightarrow> a < b \<Longrightarrow>
             window_sound a b (bv_max B P n (forecast_move B game m))
               (abv_max B P n (forecast_move B game m) a b)"
        using Cons.prems(1) by simp
    qed (use Cons.prems(2) inv av in auto)
    then show ?thesis
      unfolding unfold_loop unfold_fold using False by simp
  qed
qed

lemma max_step_invariant:
  fixes alpha0 alpha beta v u x x' :: val
  assumes fx: "window_sound alpha beta x' x" and "alpha = max alpha0 v" and "v < beta"
    and "u \<le> v" and "alpha0 < v \<longrightarrow> u = v" and bv: "max v x < beta"
  shows "max alpha (max v x) = max alpha0 (max v x)"
    and "max u x' \<le> max v x"
    and "alpha0 < max v x \<longrightarrow> max u x' = max v x"
proof -
  have xb: "x < beta" using bv by simp
  have tx: "x' \<le> x"
    using fx xb by (cases "alpha < x") (auto simp add: window_sound_def split: if_splits)
  show "max alpha (max v x) = max alpha0 (max v x)"
    using assms(2) by (auto simp add: max_def)
  show "max u x' \<le> max v x"
    using tx assms(4) by (auto simp add: max_def)
  show "alpha0 < max v x \<longrightarrow> max u x' = max v x"
  proof
    assume gt: "alpha0 < max v x"
    show "max u x' = max v x"
    proof (cases "v < x")
      case True
      then have "alpha0 < x" using gt by (auto simp add: max_def split: if_splits)
      then have "alpha < x" using True assms(2) by (auto simp add: max_def)
      then have "x = x'" using fx xb by (auto simp add: window_sound_def split: if_splits)
      then show ?thesis using True assms(4) by (auto simp add: max_def)
    next
      case False
      then have vx: "max v x = v" by (auto simp add: max_def)
      then have "u = v" using gt assms(5) by simp
      then show ?thesis using tx False vx by (auto simp add: max_def)
    qed
  qed
qed

lemma abv_max_loop_window_sound:
  assumes child: "\<And>m a b. m \<in> set ms \<Longrightarrow> a < b \<Longrightarrow>
             window_sound a b (bv_min B P n (forecast_move B game m))
               (abv_min B P n (forecast_move B game m) a b)"
    and "alpha0 < beta" and "alpha = max alpha0 v" and "v < beta" and "u \<le> v"
    and "alpha0 < v \<longrightarrow> u = v"
  shows "window_sound alpha0 beta (max_fold B P n game ms u) (abv_max_loop B P n game ms alpha beta v)"
  using assms
proof (induction ms arbitrary: alpha v u)
  case Nil
  then show ?case by (auto simp add: window_sound_def split: if_splits)
next
  case (Cons m ms)
  define x where "x = abv_min B P n (forecast_move B game m) alpha beta"
  define t where "t = bv_min B P n (forecast_move B game m)"
  have ab: "alpha < beta" using Cons.prems(2,3,4) by simp
  have fx: "window_sound alpha beta t x"
    unfolding x_def t_def using Cons.prems(1) [of m alpha beta] ab by simp
  have unfold_loop: "abv_max_loop B P n game (m # ms) alpha beta v =
      (if beta \<le> max v x then max v x
       else abv_max_loop B P n game ms (max alpha (max v x)) beta (max v x))"
    by (simp add: x_def Let_def)
  have unfold_fold: "max_fold B P n game (m # ms) u = max_fold B P n game ms (max u t)"
    by (simp add: t_def)
  show ?case
  proof (cases "beta \<le> max v x")
    case True
    then have xb: "beta \<le> x" and vx: "max v x = x"
      using Cons.prems(4) by (auto simp add: max_def split: if_splits)
    have "x \<le> t" using fx xb ab by (auto simp add: window_sound_def split: if_splits)
    moreover have "max u t \<le> max_fold B P n game ms (max u t)"
      by (rule max_fold_ge)
    ultimately have le: "x \<le> max_fold B P n game ms (max u t)" by auto
    have "window_sound alpha0 beta (max_fold B P n game ms (max u t)) x"
      using xb Cons.prems(2) le by (rule window_sound_high)
    then show ?thesis
      unfolding unfold_loop unfold_fold using True vx by simp
  next
    case False
    then have bv: "max v x < beta" by (simp add: not_le)
    note inv = max_step_invariant [OF fx Cons.prems(3,4,5,6) bv]
    have "window_sound alpha0 beta (max_fold B P n game ms (max u t))
            (abv_max_loop B P n game ms (max alpha (max v x)) beta (max v x))"
    proof (rule Cons.IH)
      show "\<And>m a b. m \<in> set ms \<Longrightarrow> a < b \<Longrightarrow>
             window_sound a b (bv_min B P n (forecast_move B game m))
               (abv_min B P n (forecast_move B game m) a b)"
        using Cons.prems(1) by simp
    qed (use Cons.prems(2) inv bv in auto)
    then show ?thesis
      unfolding unfold_loop unfold_fold using False by simp
  qed
qed

lemma window_sound_refl: "window_sound a b v v"
  by (auto simp add: window_sound_def split: if_splits)

lemma abv_window_sound:
  "(\<forall>game alpha beta. alpha < beta \<longrightarrow> dead_ends_min B P n game \<longrightarrow>
      window_sound alpha beta (bv_min B P n game) (abv_min B P n game alpha beta))
   \<and> (\<forall>game alpha beta. alpha < beta \<longrightarrow> dead_ends_max B P n game \<longrightarrow>
      window_sound alpha beta (bv_max B P n game) (abv_max B P n game alpha beta))"
proof (induction n)
  case 0
  show ?case by (simp add: window_sound_refl)
next
  case (Suc n)
  have min_part: "window_sound alpha beta (bv_min B P (Suc n) game) (abv_min B P (Suc n) game alpha beta)"
    if ab: "alpha < beta" and de: "dead_ends_min B P (Suc n) game" for game alpha beta
  proof (cases "get_legal_moves B game None = []")
    case True
    then show ?thesis using de by (simp add: window_sound_refl)
  next
    case False
    have kids: "\<And>m a b. m \<in> set (get_legal_moves B game None) \<Longrightarrow> a < b \<Longrightarrow>
             window_sound a b (bv_max B P n (forecast_move B game m))
               (abv_max B P n (forecast_move B game m) a b)"
      using Suc.IH de False by (simp add: list_all_iff)
    have "window_sound alpha beta (min_fold B P n game (get_legal_moves B game None) PInf)
            (abv_min_loop B P n game (get_legal_moves B game None) alpha beta PInf)"
      using kids ab
      by (rule abv_min_loop_window_sound) (use ab in \<open>auto simp add: val_less_PInf_iff\<close>)
    then show ?thesis using False by simp
  qed
  have max_part: "window_sound alpha beta (bv_max B P (Suc n) game) (abv_max B P (Suc n) game alpha beta)"
    if ab: "alpha < beta" and de: "dead_ends_max B P (Suc n) game" for game alpha beta
  proof (cases "get_legal_moves B game None = []")
    case True
    then show ?thesis using de by (simp add: window_sound_refl)
  next
    case False
    have kids: "\<And>m a b. m \<in> set (get_legal_moves B game None) \<Longrightarrow> a < b \<Longrightarrow>
             window_sound a b (bv_min B P n (forecast_move B game m))
               (abv_min B P n (forecast_move B game m) a b)"
      using Suc.IH de False by (simp add: list_all_iff)
    have "window_sound alpha beta (max_fold B P n game (get_legal_moves B game None) MInf)
            (abv_max_loop B P n game (get_legal_moves B game None) alpha beta MInf)"
      using kids ab
      by (rule abv_max_loop_window_sound) (use ab in \<open>auto simp add: val_MInf_less_iff\<close>)
    then show ?thesis using False by simp
  qed
  show ?case using min_part max_part by blast
qed

lemma first_max_mem: "first_max f ms best bv \<in> insert best (set ms)"
  by (induction ms arbitrary: best bv) (auto split: if_splits)

lemma first_max_greatest:
  "f best = bv \<Longrightarrow> m' \<in> insert best (set ms) \<Longrightarrow> f m' \<le> f (first_max f ms best bv)"
proof (induction ms arbitrary: best bv m')
  case Nil
  then show ?case by simp
next
  case (Cons m ms)
  show ?case
  proof (cases "bv < f m")
    case True
    have "f m' \<le> f (first_max f ms m (f m))"
    proof (cases "m' = best")
      case True
      have "f m \<le> f (first_max f ms m (f m))"
        by (rule Cons.IH) simp_all
      then show ?thesis using True \<open>bv < f m\<close> Cons.prems(1) by auto
    next
      case False
      then have "m' \<in> insert m (set ms)" using Cons.prems(2) by auto
      then show ?thesis by (intro Cons.IH) simp_all
    qed
    then show ?thesis using True by simp
  next
    case False
    have "f m' \<le> f (first_max f ms best bv)"
    proof (cases "m' = m")
      case True
      have "f best \<le> f (first_max f ms best bv)"
        by (rule Cons.IH) (simp_all add: Cons.prems(1))
      then show ?thesis using True False Cons.prems(1) by auto
    next
      case False
      then have "m' \<in> insert best (set ms)" using Cons.prems(2) by auto
      then show ?thesis using Cons.prems(1) by (intro Cons.IH) simp_all
    qed
    then show ?thesis using False by simp
  qed
qed

lemma first_max_start_irrelevant:
  "\<exists>m' \<in> set ms. bv < f m' \<Longrightarrow> first_max f ms best bv = first_max f ms best' bv"
proof (induction ms arbitrary: best best' bv)
  case Nil
  then show ?case by simp
next
  case (Cons m ms)
  show ?case
  proof (cases "bv < f m")
    case True
    then show ?thesis by simp
  next
    case False
    then have "\<exists>m' \<in> set ms. bv < f m'" using Cons.prems by auto
    then have "first_max f ms best bv = first_max f ms best' bv" by (rule Cons.IH)
    then show ?thesis using False by simp
  qed
qed

lemma first_max_from_sentinel:
  assumes "\<exists>m' \<in> set (m # ms). MInf < f m'"
  shows "first_max f (m # ms) best MInf = first_max f ms m (f m)"
proof (cases "MInf < f m")
  case True
  then show ?thesis by simp
next
  case False
  then have fm: "f m = MInf" by (simp add: val_MInf_less_iff)
  then have "\<exists>m' \<in> set ms. MInf < f m'" using assms by auto
  then have "first_max f ms best MInf = first_max f ms m MInf"
    by (rule first_max_start_irrelevant)
  then show ?thesis using fm by simp
qed

lemma abv_root_first_max:
  assumes "\<forall>m \<in> set ms. dead_ends_min B P n (forecast_move B game m)"
  shows "abv_root B P n game ms bv PInf bv best
       = first_max (\<lambda>m. bv_min B P n (forecast_move B game m)) ms best bv"
  using assms
proof (induction ms arbitrary: bv best)
  case Nil
  show ?case by simp
next
  case (Cons m ms)
  define x where "x = abv_min B P n (forecast_move B game m) bv PInf"
  define t where "t = bv_min B P n (forecast_move B game m)"
  define f where "f = (\<lambda>m. bv_min B P n (forecast_move B game m))"
  have key: "(bv < x \<longleftrightarrow> bv < t) \<and> (bv < x \<longrightarrow> x = t)"
  proof (cases "bv = PInf")
    case True
    then show ?thesis by simp
  next
    case False
    then have lt: "bv < PInf" by (simp add: val_less_PInf_iff)
    have "dead_ends_min B P n (forecast_move B game m)" using Cons.prems by simp
    then have "window_sound bv PInf t x"
      unfolding x_def t_def using abv_window_sound [of B P n] lt by blast
    then show ?thesis
      using lt by (auto simp add: window_sound_def split: if_splits)
  qed
  have ih: "abv_root B P n game ms bv' PInf bv' best' = first_max f ms best' bv'" for bv' best'
    unfolding f_def using Cons.prems by (intro Cons.IH) simp
  have ft: "f m = t" by (simp add: f_def t_def)
  show ?case
  proof (cases "bv < x")
    case True
    then have xt: "x = t" and bt: "bv < t" using key by auto
    have "abv_root B P n game (m # ms) bv PInf bv best = abv_root B P n game ms x PInf x m"
      using True by (simp add: x_def [symmetric] Let_def max_absorb2 less_imp_le)
    also have "\<dots> = first_max f ms m t" unfolding xt by (rule ih)
    also have "\<dots> = first_max f (m # ms) best bv" using bt ft by simp
    finally show ?thesis unfolding f_def .
  next
    case False
    then have bt: "\<not> bv < t" using key by auto
    have "abv_root B P n game (m # ms) bv PInf bv best = abv_root B P n game ms bv PInf bv best"
      using False by (simp add: x_def [symmetric] Let_def)
    also have "\<dots> = first_max f ms best bv" by (rule ih)
    also have "\<dots> = first_max f (m # ms) best bv" using bt ft by simp
    finally show ?thesis unfolding f_def .
  qed
qed

subsection \<open>The two searches under an ample time budget\<close>

lemma mm_min_loop_sim:
  assumes A: "\<forall>k. \<not> time_left P k < TIMER_THRESHOLD P"
    and child: "\<And>g k. \<exists>k'. mm_max_value B P depth fuel' g td k = Some (Inr (bv_max B P n g), k')"
  shows "\<exists>k'. mm_min_loop B P depth (Suc fuel') game ms td v k
             = Some (Inr (min_fold B P n game ms v), k')"
proof (induction ms arbitrary: v k)
  case Nil
  show ?case by simp
next
  case (Cons m ms)
  obtain k1 where c: "mm_max_value B P depth fuel' (forecast_move B game m) td (Suc k)
      = Some (Inr (bv_max B P n (forecast_move B game m)), k1)"
    using child by blast
  show ?case using A c Cons.IH by simp
qed

lemma mm_max_loop_sim:
  assumes A: "\<forall>k. \<not> time_left P k < TIMER_THRESHOLD P"
    and child: "\<And>g k. \<exists>k'. mm_min_value B P depth fuel' g td k = Some (Inr (bv_min B P n g), k')"
  shows "\<exists>k'. mm_max_loop B P depth (Suc fuel') game ms td v k
             = Some (Inr (max_fold B P n game ms v), k')"
proof (induction ms arbitrary: v k)
  case Nil
  show ?case by simp
next
  case (Cons m ms)
  obtain k1 where c: "mm_min_value B P depth fuel' (forecast_move B game m) td (Suc k)
      = Some (Inr (bv_min B P n (forecast_move B game m)), k1)"
    using child by blast
  show ?case using A c Cons.IH by simp
qed

lemma mm_sim:
  assumes A: "\<forall>k. \<not> time_left P k < TIMER_THRESHOLD P"
  shows "\<forall>g td fuel k. td \<le> depth \<and> nat (depth - td) = n \<and> n \<le> fuel \<longrightarrow>
      (\<exists>k'. mm_min_value B P depth fuel g td k = Some (Inr (bv_min B P n g), k'))
    \<and> (\<exists>k'. mm_max_value B P depth fuel g td k = Some (Inr (bv_max B P n g), k'))"
proof (induction n)
  case 0
  show ?case using A by (auto simp add: mm_min_value.simps mm_max_value.simps)
next
  case (Suc n)
  show ?case
  proof (intro allI impI)
    fix g :: 'a and td :: int and fuel k :: nat
    assume h: "td \<le> depth \<and> nat (depth - td) = Suc n \<and> Suc n \<le> fuel"
    then obtain fuel' where f: "fuel = Suc fuel'" and nf: "n \<le> fuel'"
      by (cases fuel) auto
    have td: "td \<noteq> depth" "td + 1 \<le> depth" "nat (depth - (td + 1)) = n"
      using h by auto
    have cmax: "\<And>g k. \<exists>k'. mm_max_value B P depth fuel' g (td + 1) k
        = Some (Inr (bv_max B P n g), k')"
      using Suc.IH td nf by blast
    have cmin: "\<And>g k. \<exists>k'. mm_min_value B P depth fuel' g (td + 1) k
        = Some (Inr (bv_min B P n g), k')"
      using Suc.IH td nf by blast
    have "\<exists>k'. mm_min_value B P depth fuel g td k = Some (Inr (bv_min B P (Suc n) g), k')"
      using A td(1) mm_min_loop_sim [OF A cmax, of g "get_legal_moves B g None" PInf "Suc k"]
      by (simp add: mm_min_value.simps f)
    moreover
    have "\<exists>k'. mm_max_value B P depth fuel g td k = Some (Inr (bv_max B P (Suc n) g), k')"
      using A td(1) mm_max_loop_sim [OF A cmin, of g "get_legal_moves B g None" MInf "Suc k"]
      by (simp add: mm_max_value.simps f)
    ultimately show "(\<exists>k'. mm_min_value B P depth fuel g td k = Some (Inr (bv_min B P (Suc n) g), k'))
    \<and> (\<exists>k'. mm_max_value B P depth fuel g td k = Some (Inr (bv_max B P (Suc n) g), k'))"
      by simp
  qed
qed

lemma ab_min_loop_sim:
  assumes child: "\<And>g a b k. \<exists>k'. ab_max_value B P fuel' g (depth - 1) a b k
        = Some (Inr (abv_max B P n g a b), k')"
  shows "\<exists>k'. ab_min_loop B P (Suc fuel') game ms depth alpha beta v k
             = Some (Inr (abv_min_loop B P n game ms alpha beta v), k')"
proof (induction ms arbitrary: beta v k)
  case Nil
  show ?case by simp
next
  case (Cons m ms)
  obtain k1 where c: "ab_max_value B P fuel' (forecast_move B game m) (depth - 1) alpha beta k
      = Some (Inr (abv_max B P n (forecast_move B game m) alpha beta), k1)"
    using child by blast
  show ?case using c Cons.IH by (simp add: Let_def)
qed

lemma ab_max_loop_sim:
  assumes child: "\<And>g a b k. \<exists>k'. ab_min_value B P fuel' g (depth - 1) a b k
        = Some (Inr (abv_min B P n g a b), k')"
  shows "\<exists>k'. ab_max_loop B P (Suc fuel') game ms depth alpha beta v k
             = Some (Inr (abv_max_loop B P n game ms alpha beta v), k')"
proof (induction ms arbitrary: alpha v k)
  case Nil
  show ?case by simp
next
  case (Cons m ms)
  obtain k1 where c: "ab_min_value B P fuel' (forecast_move B game m) (depth - 1) alpha beta k
      = Some (Inr (abv_min B P n (forecast_move B game m) alpha beta), k1)"
    using child by blast
  show ?case using c Cons.IH by (simp add: Let_def)
qed

lemma ab_sim:
  assumes A: "\<forall>k. \<not> time_left P k < TIMER_THRESHOLD P"
  shows "\<forall>g depth fuel alpha beta k. 0 \<le> depth \<and> nat depth = n \<and> n \<le> fuel \<longrightarrow>
      (\<exists>k'. ab_min_value B P fuel g depth alpha beta k
               = Some (Inr (abv_min B P n g alpha beta), k'))
    \<and> (\<exists>k'. ab_max_value B P fuel g depth alpha beta k
               = Some (Inr (abv_max B P n g alpha beta), k'))"
proof (induction n)
  case 0
  show ?case using A by (auto simp add: ab_min_value.simps ab_max_value.simps)
next
  case (Suc n)
  show ?case
  proof (intro allI impI)
    fix g :: 'a and depth :: int and fuel k :: nat and alpha beta :: val
    assume h: "0 \<le> depth \<and> nat depth = Suc n \<and> Suc n \<le> fuel"
    then obtain fuel' where f: "fuel = Suc fuel'" and nf: "n \<le> fuel'"
      by (cases fuel) auto
    have d: "depth \<noteq> 0" "0 \<le> depth - 1" "nat (depth - 1) = n"
      using h by auto
    have cmax: "\<And>g a b k. \<exists>k'. ab_max_value B P fuel' g (depth - 1) a b k
        = Some (Inr (abv_max B P n g a b), k')"
      using Suc.IH d nf by blast
    have cmin: "\<And>g a b k. \<exists>k'. ab_min_value B P fuel' g (depth - 1) a b k
        = Some (Inr (abv_min B P n g a b), k')"
      using Suc.IH d nf by blast
    have "\<exists>k'. ab_min_value B P fuel g depth alpha beta k
               = Some (Inr (abv_min B P (Suc n) g alpha beta), k')"
      using A d(1)
        ab_min_loop_sim [OF cmax, of g "get_legal_moves B g None" alpha beta PInf "Suc k"]
      by (simp add: ab_min_value.simps f)
    moreover
    have "\<exists>k'. ab_max_value B P fuel g depth alpha beta k
               = Some (Inr (abv_max B P (Suc n) g alpha beta), k')"
      using A d(1)
        ab_max_loop_sim [OF cmin, of g "get_legal_moves B g None" alpha beta MInf "Suc k"]
      by (simp add: ab_max_value.simps f)
    ultimately show "(\<exists>k'. ab_min_value B P fuel g depth alpha beta k
               = Some (Inr (abv_min B P (Suc n) g alpha beta), k'))
    \<and> (\<exists>k'. ab_max_value B P fuel g depth alpha beta k
               = Some (Inr (abv_max B P (Suc n) g alpha beta), k'))"
      by simp
  qed
qed

lemma mm_max_key_sim:
  assumes child: "\<And>g k. \<exists>k'. mm_min_value B P depth fuel g 1 k = Some (Inr (bv_min B P n g), k')"
  shows "\<exists>k'. mm_max_key B P depth fuel game ms maxitem maxval k
             = Some (Inr (first_max (\<lambda>m. bv_min B P n (forecast_move B game m)) ms
                            maxitem maxval), k')"
proof (induction ms arbitrary: maxitem maxval k)
  case Nil
  show ?case by simp
next
  case (Cons m ms)
  obtain k1 where c: "mm_min_value B P depth fuel (forecast_move B game m) 1 k
      = Some (Inr (bv_min B P n (forecast_move B game m)), k1)"
    using child by blast
  show ?case using c Cons.IH by simp
qed

lemma alphabeta_loop_sim:
  assumes child: "\<And>g a b k. \<exists>k'. ab_min_value B P fuel g (depth - 1) a b k
        = Some (Inr (abv_min B P n g a b), k')"
  shows "\<exists>k'. alphabeta_loop B P fuel game ms depth alpha beta best_val best_move k
             = Some (Inr (abv_root B P n game ms alpha beta best_val best_move), k')"
proof (induction ms arbitrary: alpha best_val best_move k)
  case Nil
  show ?case by simp
next
  case (Cons m ms)
  obtain k1 where c: "ab_min_value B P fuel (forecast_move B game m) (depth - 1) alpha beta k
      = Some (Inr (abv_min B P n (forecast_move B game m) alpha beta), k1)"
    using child by blast
  show ?case using c Cons.IH by (simp add: Let_def)
qed

text \<open>
  Claim C4, as amended. For a state with at least one legal move and a depth of at least
  one, when no timeout fires, when every node without legal moves above the cutoff has
  the score that the empty loop of the minimax search yields there, and when some move of
  the root has a backed-up value above negative infinity, \<^verbatim>\<open>minimax\<close> and \<^verbatim>\<open>alphabeta\<close>
  at that depth return the same move, a legal move of greatest backed-up minimax value.
\<close>

theorem minimax_alphabeta_same_move:
  assumes ample: "\<forall>k. TIMER_THRESHOLD P \<le> time_left P k"
    and depth: "1 \<le> depth"
    and fuel: "nat (depth - 1) \<le> fuel"
    and moves: "get_legal_moves B game None \<noteq> []"
    and dead: "\<forall>m \<in> set (get_legal_moves B game None).
                 dead_ends_min B P (nat (depth - 1)) (forecast_move B game m)"
    and some: "\<exists>m \<in> set (get_legal_moves B game None).
                 MInf < bv_min B P (nat (depth - 1)) (forecast_move B game m)"
  shows "\<exists>m k1 k2.
           minimax B P fuel game depth k = Some (Inr m, k1)
         \<and> alphabeta B P fuel game depth MInf PInf k = Some (Inr m, k2)
         \<and> m \<in> set (get_legal_moves B game None)
         \<and> (\<forall>m' \<in> set (get_legal_moves B game None).
               bv_min B P (nat (depth - 1)) (forecast_move B game m')
                 \<le> bv_min B P (nat (depth - 1)) (forecast_move B game m))"
proof -
  define n where "n = nat (depth - 1)"
  define f where "f = (\<lambda>m. bv_min B P n (forecast_move B game m))"
  have A: "\<forall>k. \<not> time_left P k < TIMER_THRESHOLD P"
    using ample by (simp add: not_less)
  obtain m ms where ms: "get_legal_moves B game None = m # ms"
    using moves by (cases "get_legal_moves B game None") auto
  have mm_child: "\<And>g k. \<exists>k'. mm_min_value B P depth fuel g 1 k = Some (Inr (bv_min B P n g), k')"
    using mm_sim [OF A, of depth n B] depth fuel by (simp add: n_def)
  have ab_child: "\<And>g a b k. \<exists>k'. ab_min_value B P fuel g (depth - 1) a b k
        = Some (Inr (abv_min B P n g a b), k')"
    using ab_sim [OF A, of n B] depth fuel by (simp add: n_def)
  obtain k0 where first: "mm_min_value B P depth fuel (forecast_move B game m) 1 k
      = Some (Inr (f m), k0)"
    using mm_child unfolding f_def by blast
  obtain k1 where rest: "mm_max_key B P depth fuel game ms m (f m) k0
      = Some (Inr (first_max f ms m (f m)), k1)"
    using mm_max_key_sim [OF mm_child] unfolding f_def by blast
  have mm: "minimax B P fuel game depth k = Some (Inr (first_max f ms m (f m)), k1)"
    by (simp add: minimax_def ms first rest)
  obtain k2 where ab0: "alphabeta_loop B P fuel game (m # ms) depth MInf PInf MInf (-1, -1) k
      = Some (Inr (abv_root B P n game (m # ms) MInf PInf MInf (-1, -1)), k2)"
    using alphabeta_loop_sim [OF ab_child] by blast
  have "abv_root B P n game (m # ms) MInf PInf MInf (-1, -1) = first_max f (m # ms) (-1, -1) MInf"
    unfolding f_def using dead by (intro abv_root_first_max) (simp add: ms n_def)
  also have "\<dots> = first_max f ms m (f m)"
    using some by (intro first_max_from_sentinel) (simp add: ms f_def n_def)
  finally have ab: "alphabeta B P fuel game depth MInf PInf k
      = Some (Inr (first_max f ms m (f m)), k2)"
    using ab0 by (simp add: alphabeta_def ms)
  have mem: "first_max f ms m (f m) \<in> set (get_legal_moves B game None)"
    using first_max_mem [of f ms m "f m"] by (simp add: ms)
  have great: "\<forall>m' \<in> set (get_legal_moves B game None). f m' \<le> f (first_max f ms m (f m))"
    using first_max_greatest [of f m "f m" _ ms] by (simp add: ms)
  show ?thesis
    using mm ab mem great unfolding f_def n_def by blast
qed

theorem minimax_alphabeta_same_move_witness:
  "(\<forall>k. TIMER_THRESHOLD fork_player \<le> time_left fork_player k)
   \<and> get_legal_moves (table_game fork_succs) 0 None \<noteq> []
   \<and> (\<exists>m k1 k2.
           minimax (table_game fork_succs) fork_player 1 0 2 0 = Some (Inr m, k1)
         \<and> alphabeta (table_game fork_succs) fork_player 1 0 2 MInf PInf 0 = Some (Inr m, k2)
         \<and> m \<in> set (get_legal_moves (table_game fork_succs) 0 None)
         \<and> (\<forall>m' \<in> set (get_legal_moves (table_game fork_succs) 0 None).
               bv_min (table_game fork_succs) fork_player (nat (2 - 1))
                 (forecast_move (table_game fork_succs) 0 m')
                 \<le> bv_min (table_game fork_succs) fork_player (nat (2 - 1))
                      (forecast_move (table_game fork_succs) 0 m)))
   \<and> get_legal_moves line_game 1 None = [(0, 0)]
   \<and> get_legal_moves line_game (forecast_move line_game 1 (0, 0)) None = []
   \<and> (\<exists>k1 k2.
           minimax line_game (line_player\<lparr>self_player := Player2, time_left := (\<lambda>k. 100)\<rparr>)
             1 1 2 0 = Some (Inr (0, 0), k1)
         \<and> alphabeta line_game (line_player\<lparr>self_player := Player2, time_left := (\<lambda>k. 100)\<rparr>)
             1 1 2 MInf PInf 0 = Some (Inr (0, 0), k2))"
proof -
  have ample: "\<forall>k. TIMER_THRESHOLD fork_player \<le> time_left fork_player k"
    by (simp add: fork_player_def)
  have depth: "(1::int) \<le> 2" by simp
  have fuel: "nat (2 - 1) \<le> (1::nat)" by simp
  have moves: "get_legal_moves (table_game fork_succs) 0 None \<noteq> []"
    by (simp add: table_simps)
  have dead: "\<forall>m \<in> set (get_legal_moves (table_game fork_succs) 0 None).
      dead_ends_min (table_game fork_succs) fork_player (nat (2 - 1))
        (forecast_move (table_game fork_succs) 0 m)"
    by (simp add: table_simps)
  have some: "\<exists>m \<in> set (get_legal_moves (table_game fork_succs) 0 None).
      MInf < bv_min (table_game fork_succs) fork_player (nat (2 - 1))
        (forecast_move (table_game fork_succs) 0 m)"
    by (simp add: table_simps val_MInf_less_iff)
  let ?P = "line_player\<lparr>self_player := Player2, time_left := (\<lambda>k. 100)\<rparr>"
  have ample': "\<forall>k. TIMER_THRESHOLD ?P \<le> time_left ?P k"
    by (simp add: line_player_def)
  have moves': "get_legal_moves line_game 1 None \<noteq> []"
    by (simp add: line_simps)
  have list': "get_legal_moves line_game 1 None = [(0, 0)]
      \<and> get_legal_moves line_game (forecast_move line_game 1 (0, 0)) None = []"
    by (simp add: line_simps)
  have dead': "\<forall>m \<in> set (get_legal_moves line_game 1 None).
      dead_ends_min line_game ?P (nat (2 - 1)) (forecast_move line_game 1 m)"
    by (simp add: line_simps)
  have some': "\<exists>m \<in> set (get_legal_moves line_game 1 None).
      MInf < bv_min line_game ?P (nat (2 - 1)) (forecast_move line_game 1 m)"
    by (simp add: line_simps val_MInf_less_iff)
  have fork: "\<exists>m k1 k2.
           minimax (table_game fork_succs) fork_player 1 0 2 0 = Some (Inr m, k1)
         \<and> alphabeta (table_game fork_succs) fork_player 1 0 2 MInf PInf 0 = Some (Inr m, k2)
         \<and> m \<in> set (get_legal_moves (table_game fork_succs) 0 None)
         \<and> (\<forall>m' \<in> set (get_legal_moves (table_game fork_succs) 0 None).
               bv_min (table_game fork_succs) fork_player (nat (2 - 1))
                 (forecast_move (table_game fork_succs) 0 m')
                 \<le> bv_min (table_game fork_succs) fork_player (nat (2 - 1))
                      (forecast_move (table_game fork_succs) 0 m))"
    by (rule minimax_alphabeta_same_move [OF ample depth fuel moves dead some])
  have "\<exists>m k1 k2.
           minimax line_game ?P 1 1 2 0 = Some (Inr m, k1)
         \<and> alphabeta line_game ?P 1 1 2 MInf PInf 0 = Some (Inr m, k2)
         \<and> m \<in> set (get_legal_moves line_game 1 None)
         \<and> (\<forall>m' \<in> set (get_legal_moves line_game 1 None).
               bv_min line_game ?P (nat (2 - 1)) (forecast_move line_game 1 m')
                 \<le> bv_min line_game ?P (nat (2 - 1)) (forecast_move line_game 1 m))"
    by (rule minimax_alphabeta_same_move [OF ample' depth fuel moves' dead' some'])
  then have line: "\<exists>k1 k2.
           minimax line_game ?P 1 1 2 0 = Some (Inr (0, 0), k1)
         \<and> alphabeta line_game ?P 1 1 2 MInf PInf 0 = Some (Inr (0, 0), k2)"
    using list' by auto
  show ?thesis using ample moves fork list' line by blast
qed

text \<open>
  Claim C4 as stated fails. In the game \<open>trap_succs\<close> at depth 2 the minimax search
  values the move into the state without moves at positive infinity and selects it,
  while the alpha-beta search scores that state and selects the other move, of backed-up
  value 5. In the corridor with two cells left at depth 2 the only move has the value
  negative infinity: the minimax search returns it, the alpha-beta search returns
  \<open>(-1, -1)\<close>, which is no move.
\<close>

theorem minimax_alphabeta_differ:
  "minimax (table_game trap_succs) trap_player 1 0 2 0 = Some (Inr (0, 0), 4)
   \<and> alphabeta (table_game trap_succs) trap_player 1 0 2 MInf PInf 0 = Some (Inr (0, 1), 3)
   \<and> bv_min (table_game trap_succs) trap_player 1
        (forecast_move (table_game trap_succs) 0 (0, 0)) = PInf
   \<and> bv_min (table_game trap_succs) trap_player 1
        (forecast_move (table_game trap_succs) 0 (0, 1)) = Fin 5
   \<and> minimax line_game (line_player\<lparr>time_left := (\<lambda>k. 100)\<rparr>) 1 2 2 0 = Some (Inr (0, 1), 3)
   \<and> alphabeta line_game (line_player\<lparr>time_left := (\<lambda>k. 100)\<rparr>) 1 2 2 MInf PInf 0
        = Some (Inr (-1, -1), 2)
   \<and> (-1, -1) \<notin> set (get_legal_moves line_game 2 None)"
proof -
  have 1: "minimax (table_game trap_succs) trap_player 1 0 2 0 = Some (Inr (0, 0), 4)"
    by (simp add: search_simps table_simps)
  have 2: "alphabeta (table_game trap_succs) trap_player 1 0 2 MInf PInf 0 = Some (Inr (0, 1), 3)"
    by (simp add: search_simps table_simps val_MInf_less_iff)
  have 3: "bv_min (table_game trap_succs) trap_player 1
        (forecast_move (table_game trap_succs) 0 (0, 0)) = PInf"
    by (simp add: table_simps)
  have 4: "bv_min (table_game trap_succs) trap_player 1
        (forecast_move (table_game trap_succs) 0 (0, 1)) = Fin 5"
    by (simp add: table_simps)
  have 5: "minimax line_game (line_player\<lparr>time_left := (\<lambda>k. 100)\<rparr>) 1 2 2 0
      = Some (Inr (0, 1), 3)"
    by (simp add: search_simps line_simps)
  have 6: "alphabeta line_game (line_player\<lparr>time_left := (\<lambda>k. 100)\<rparr>) 1 2 2 MInf PInf 0
        = Some (Inr (-1, -1), 2)"
    by (simp add: search_simps line_simps)
  have 7: "(-1, -1) \<notin> set (get_legal_moves line_game 2 None)"
    by (simp add: line_simps)
  show ?thesis using 1 2 3 4 5 6 7 by blast
qed

subsection \<open>Evaluations of the code\<close>

text \<open>
  Claim C1. The corridor with two cells left: the agent has the one legal move \<open>(0, 1)\<close>,
  after which the opponent's reply leaves it without moves. The clock lets the searches
  at depths 1 and 2 run to their end. \<^verbatim>\<open>AlphaBetaPlayer.get_move\<close> returns \<open>(-1, -1)\<close>,
  which is not a legal move: at depth 2 every move of the root has the value negative
  infinity, no value is strictly greater than the initial \<^verbatim>\<open>best_val\<close>, and \<^verbatim>\<open>alphabeta\<close>
  returns its initial \<^verbatim>\<open>best_move\<close>.
\<close>

theorem alphabeta_get_move_not_legal:
  "get_legal_moves line_game 2 None = [(0, 1)]
   \<and> ab_get_move line_game line_player 1 2 five_ticks 0 = Some (Inr (-1, -1), 6)"
proof -
  have 1: "get_legal_moves line_game 2 None = [(0, 1)]"
    by (simp add: line_simps)
  have 2: "ab_get_move line_game line_player 1 2 five_ticks 0 = Some (Inr (-1, -1), 6)"
    by (simp add: ab_get_move_def ab_deepen.simps search_simps line_simps five_ticks_def
        val_MInf_less_iff)
  show ?thesis using 1 2 by simp
qed

lemma longestPath_loop_result:
  "longestPath_loop B fuel player game ms path longest = Some r \<Longrightarrow> r = longest"
proof (induction ms)
  case Nil
  then show ?case by simp
next
  case (Cons m ms)
  then show ?case
    by (cases fuel) (auto simp add: Let_def split: option.splits)
qed

lemma longestPath_result:
  "longestPath B fuel player game path longest = Some r \<Longrightarrow> r = max path longest"
  using longestPath_loop_result [of B fuel player game] by (auto simp add: Let_def max_def)

lemma custom_score_late_game:
  assumes "\<not> is_loser B game player" and "\<not> is_winner B game player"
    and "length (get_blank_spaces B game) < 15"
    and "custom_score B fuel game player = Some v"
  shows "v = Fin 0"
proof -
  from assms obtain a b where
    a: "longestPath B fuel player game 0 0 = Some a"
    and b: "longestPath B fuel (get_opponent B game player) game 0 0 = Some b"
    and v: "v = Fin (real_of_int (a - b))"
    by (auto simp add: custom_score_def Let_def split: option.splits)
  have "a = 0" using longestPath_result [OF a] by simp
  moreover have "b = 0" using longestPath_result [OF b] by simp
  ultimately show ?thesis using v by simp
qed

text \<open>
  Claim C2. The corridor with two cells left, seen by the player to move: the state is
  not terminal, two cells are blank, the player has a legal move and the opponent has
  none, so the longest move sequence of the player is longer than the opponent's.
  \<^verbatim>\<open>custom_score\<close> returns 0: \<^verbatim>\<open>longestPath\<close> drops the value of its recursive calls and
  returns the greater of its own two arguments, which are 0 at the top.
\<close>

theorem custom_score_late_game_zero:
  "\<not> is_loser line_game 2 Player1 \<and> \<not> is_winner line_game 2 Player1
   \<and> length (get_blank_spaces line_game 2) = 2
   \<and> get_legal_moves line_game 2 (Some Player1) = [(0, 1)]
   \<and> get_legal_moves line_game 2 (Some (get_opponent line_game 2 Player1)) = []
   \<and> custom_score line_game 2 2 Player1 = Some (Fin 0)"
proof -
  have 1: "\<not> is_loser line_game 2 Player1 \<and> \<not> is_winner line_game 2 Player1
      \<and> length (get_blank_spaces line_game 2) = 2
      \<and> get_legal_moves line_game 2 (Some Player1) = [(0, 1)]
      \<and> get_legal_moves line_game 2 (Some (get_opponent line_game 2 Player1)) = []"
    by (simp add: line_simps)
  have 2: "longestPath line_game 2 Player1 2 0 0 = Some 0"
    by (simp add: line_simps numeral_2_eq_2)
  have 3: "longestPath line_game 2 Player2 2 0 0 = Some 0"
    by (simp add: line_simps numeral_2_eq_2)
  have "custom_score line_game 2 2 Player1 = Some (Fin 0)"
    using 2 3 by (simp add: custom_score_def line_simps)
  then show ?thesis using 1 by simp
qed

lemma custom_score_3_at_half_dimensions:
  assumes "\<not> is_loser B game player" and "\<not> is_winner B game player"
    and "get_player_location B game player = Some (a, b)"
    and "real_of_int a = real_of_int (width B game) / 2"
    and "real_of_int b = real_of_int (height B game) / 2"
  shows "custom_score_3 B game player = Inr PInf"
  using assms by (simp add: custom_score_3_def Let_def loc_eq_def as_floats_def)

lemma odd_width_no_cell_at_half:
  assumes "width B game mod 2 \<noteq> 0"
  shows "\<not> loc_eq (Some c) (real_of_int (width B game) / 2, real_of_int (height B game) / 2)"
proof
  assume "loc_eq (Some c) (real_of_int (width B game) / 2, real_of_int (height B game) / 2)"
  then have "real_of_int (fst c) = real_of_int (width B game) / 2"
    by (simp add: loc_eq_def as_floats_def)
  then have "real_of_int (2 * fst c) = real_of_int (width B game)" by simp
  then have "2 * fst c = width B game" by (simp only: of_int_eq_iff)
  then have "width B game mod 2 = 0" by presburger
  then show False using assms by simp
qed

text \<open>
  Claim C5. On the board of seven by seven cells with the player on the centre cell
  \<open>(3, 3)\<close>, in a state that is not terminal, \<^verbatim>\<open>custom_score_3\<close> returns the finite value
  164.5. The code compares the location with \<open>(width / 2, height / 2)\<close>, which is
  \<open>(3.5, 3.5)\<close> here and is the location of no cell whenever the width is odd.
\<close>

theorem custom_score_3_centre_cell:
  "width centre_board () = 7 \<and> height centre_board () = 7
   \<and> get_player_location centre_board () Player1 = Some (3, 3)
   \<and> \<not> is_loser centre_board () Player1 \<and> \<not> is_winner centre_board () Player1
   \<and> custom_score_3 centre_board () Player1 = Inr (Fin (329 / 2))"
proof -
  have 1: "width centre_board () = 7 \<and> height centre_board () = 7
      \<and> get_player_location centre_board () Player1 = Some (3, 3)
      \<and> \<not> is_loser centre_board () Player1 \<and> \<not> is_winner centre_board () Player1"
    by (simp add: centre_board_def)
  have 2: "custom_score_3 centre_board () Player1 = Inr (Fin (329 / 2))"
    by code_simp
  show ?thesis using 1 2 by simp
qed

end
